(* ===== verification/Rust_Prelude.thy ===== *)
theory Rust_Prelude
  imports Main "HOL-Library.Word" "HOL-Library.Multiset"
begin

text \<open>
  What the components share: Rust's machine integers as words, \<^verbatim>\<open>Result\<close> values with
  panics made explicit, slices, big-endian integers, UTF-8 validation of
  \<^verbatim>\<open>std::str::from_utf8\<close>, the vector operation \<^verbatim>\<open>swap_remove\<close>, and the generic
  lemmas and fact collections the component theories use.

  A Rust string (\<^verbatim>\<open>String\<close>, \<^verbatim>\<open>&str\<close>) is the list of its UTF-8 bytes, so that its
  length is what \<^verbatim>\<open>str::len\<close> counts; a value of the type satisfies \<open>utf8_valid\<close>.
  Message texts that are only carried or logged are HOL strings.
\<close>

named_theorems crate_laws
  \<open>equations a third-party crate promises, conditional on its contract\<close>
named_theorems model_defs
  \<open>definitions of small operations, unfolded together\<close>

section \<open>Types\<close>

type_synonym u8 = "8 word"
type_synonym u16 = "16 word"
type_synonym u32 = "32 word"
type_synonym u64 = "64 word"
type_synonym usize = "64 word"
type_synonym bytes = "u8 list"
type_synonym rust_str = "u8 list"
type_synonym varint = "64 word"

text \<open>
  The outcome of a call: the two constructors of \<^verbatim>\<open>Result\<close>, and the panic that ends the
  task (and, with the release profile's \<^verbatim>\<open>panic = "abort"\<close>, the process).
\<close>

datatype ('a, 'e) result = Ok 'a | Err 'e | Panic

definition and_then :: "('a, 'e) result \<Rightarrow> ('a \<Rightarrow> ('b, 'e) result) \<Rightarrow> ('b, 'e) result" where
  "and_then r f = (case r of Ok x \<Rightarrow> f x | Err e \<Rightarrow> Err e | Panic \<Rightarrow> Panic)"

definition unwrap :: "('a, 'e) result \<Rightarrow> ('a, 'f) result" where
  "unwrap r = (case r of Ok x \<Rightarrow> Ok x | Err _ \<Rightarrow> Panic | Panic \<Rightarrow> Panic)"

definition or_panic :: "'a option \<Rightarrow> ('a, 'e) result" where
  "or_panic x = (case x of Some y \<Rightarrow> Ok y | None \<Rightarrow> Panic)"

definition is_ok :: "('a, 'e) result \<Rightarrow> bool" where
  "is_ok r = (case r of Ok _ \<Rightarrow> True | _ \<Rightarrow> False)"

text \<open>How a task stands after the events it was given: still in its loop, returned, or panicked.\<close>

datatype 'r run = Running | Returned 'r | Panicked

lemma and_then_simps [simp]:
  "and_then (Ok x) f = f x"
  "and_then (Err e) f = Err e"
  "and_then Panic f = Panic"
  by (simp_all add: and_then_def)

lemma unwrap_simps [simp]:
  "unwrap (Ok x) = Ok x"
  "unwrap (Err e) = Panic"
  "unwrap Panic = Panic"
  by (simp_all add: unwrap_def)

lemma unwrap_eq_Ok [simp]: "unwrap r = Ok x \<longleftrightarrow> r = Ok x"
  by (cases r) simp_all

lemma or_panic_simps [simp]:
  "or_panic (Some x) = Ok x"
  "or_panic None = Panic"
  by (simp_all add: or_panic_def)

lemma is_ok_simps [simp]:
  "is_ok (Ok x)"
  "\<not> is_ok (Err e)"
  "\<not> is_ok Panic"
  by (simp_all add: is_ok_def)

lemma is_ok_iff: "is_ok r \<longleftrightarrow> (\<exists>x. r = Ok x)"
  by (cases r) simp_all

lemma and_then_eq_Ok: "and_then r f = Ok y \<longleftrightarrow> (\<exists>x. r = Ok x \<and> f x = Ok y)"
  by (cases r) simp_all

lemma and_then_eq_Err:
  "and_then r f = Err e \<longleftrightarrow> r = Err e \<or> (\<exists>x. r = Ok x \<and> f x = Err e)"
  by (cases r) simp_all

lemma and_then_eq_Panic:
  "and_then r f = Panic \<longleftrightarrow> r = Panic \<or> (\<exists>x. r = Ok x \<and> f x = Panic)"
  by (cases r) simp_all

lemmas and_then_iffs = and_then_eq_Ok and_then_eq_Err and_then_eq_Panic

lemma or_panic_iffs [simp]:
  "or_panic x = Ok y \<longleftrightarrow> x = Some y"
  "or_panic x = Panic \<longleftrightarrow> x = None"
  "or_panic x \<noteq> Err e"
  by (cases x; simp)+

section \<open>Slices, vectors and byte order\<close>

text \<open>Indexing a slice and slicing a prefix panic out of range.\<close>

definition index :: "'a list \<Rightarrow> nat \<Rightarrow> ('a, 'e) result" where
  "index xs i = (if i < length xs then Ok (xs ! i) else Panic)"

definition slice_to :: "'a list \<Rightarrow> nat \<Rightarrow> ('a list, 'e) result" where
  "slice_to xs n = (if n \<le> length xs then Ok (take n xs) else Panic)"

lemma index_simps [simp]:
  "i < length xs \<Longrightarrow> index xs i = Ok (xs ! i)"
  "length xs \<le> i \<Longrightarrow> index xs i = Panic"
  by (simp_all add: index_def)

lemma slice_to_simps [simp]:
  "n \<le> length xs \<Longrightarrow> slice_to xs n = Ok (take n xs)"
  "length xs < n \<Longrightarrow> slice_to xs n = Panic"
  by (simp_all add: slice_to_def)

text \<open>\<^verbatim>\<open>u16::from_be_bytes\<close> and the bytes of \<^verbatim>\<open>u16\<close> in network order.\<close>

definition u16_from_be :: "u8 \<Rightarrow> u8 \<Rightarrow> u16" where
  "u16_from_be hi lo = of_nat (256 * unat hi + unat lo)"

definition u16_to_be :: "u16 \<Rightarrow> bytes" where
  "u16_to_be w = [of_nat (unat w div 256), of_nat (unat w mod 256)]"

lemma length_u16_to_be [simp]: "length (u16_to_be w) = 2"
  by (simp add: u16_to_be_def)

lemma unat_u8_less [simp]: "unat (b :: u8) < 256"
  using unsigned_less [where w = b and ?'a = nat] by simp

lemma unat_u8_le [simp]: "unat (b :: u8) \<le> 255"
  using unat_u8_less [of b] by linarith

lemma unat_u16_less [simp]: "unat (w :: u16) < 65536"
  using unsigned_less [where w = w and ?'a = nat] by simp

lemma unat_of_nat_u8: "n < 256 \<Longrightarrow> unat (of_nat n :: u8) = n"
  by (simp add: unat_of_nat)

lemma unat_of_nat_u16: "n < 65536 \<Longrightarrow> unat (of_nat n :: u16) = n"
  by (simp add: unat_of_nat)

lemma unat_u16_from_be [simp]: "unat (u16_from_be hi lo) = 256 * unat hi + unat lo"
proof -
  have "256 * unat hi + unat lo < 65536"
    using unat_u8_le [of hi] unat_u8_le [of lo] by linarith
  then show ?thesis by (simp only: u16_from_be_def unat_of_nat_u16)
qed

lemma u16_be_roundtrip [simp]:
  "u16_from_be (of_nat (unat w div 256)) (of_nat (unat w mod 256)) = w"
proof -
  have "unat w div 256 < 256" using unat_u16_less [of w] by (simp add: less_mult_imp_div_less)
  moreover have "unat w mod 256 < 256" by simp
  ultimately have "unat (u16_from_be (of_nat (unat w div 256)) (of_nat (unat w mod 256))) = unat w"
    by (simp add: unat_of_nat_u8)
  then show ?thesis by (simp only: word_unat_eq_iff)
qed

lemma u16_to_be_from_be [simp]: "u16_to_be (u16_from_be x y) = [x, y]"
proof -
  have "(256 * unat x + unat y) div 256 = unat x" "(256 * unat x + unat y) mod 256 = unat y"
    by simp_all
  then show ?thesis unfolding u16_to_be_def unat_u16_from_be by simp
qed

lemma drop_Cons_length: "drop n xs = y # ys \<Longrightarrow> length ys < length xs"
  by (metis length_drop length_Cons less_eq_Suc_le diff_le_self)

text \<open>\<^verbatim>\<open>Vec::swap_remove\<close>: the last element takes the removed one's place.\<close>

definition swap_remove :: "'a list \<Rightarrow> nat \<Rightarrow> 'a list" where
  "swap_remove xs i = butlast (xs[i := last xs])"

text \<open>\<^verbatim>\<open>iter().position(p)\<close>: the first index whose element satisfies the predicate.\<close>

fun position :: "('a \<Rightarrow> bool) \<Rightarrow> 'a list \<Rightarrow> nat option" where
  "position p [] = None"
| "position p (x # xs) = (if p x then Some 0 else map_option Suc (position p xs))"

lemma position_Some:
  "position p xs = Some i \<Longrightarrow> i < length xs \<and> p (xs ! i) \<and> (\<forall>j < i. \<not> p (xs ! j))"
proof (induction xs arbitrary: i)
  case Nil
  then show ?case by simp
next
  case (Cons x xs)
  then show ?case by (cases i) (auto split: if_splits simp: less_Suc_eq_0_disj)
qed

lemma position_None: "position p xs = None \<longleftrightarrow> (\<forall>x \<in> set xs. \<not> p x)"
  by (induction xs) auto

lemma length_swap_remove [simp]: "length (swap_remove xs i) = length xs - 1"
  by (simp add: swap_remove_def)

lemma mset_swap_remove:
  assumes "i < length xs"
  shows "mset (swap_remove xs i) = mset xs - {#xs ! i#}"
proof -
  have ne: "xs[i := last xs] \<noteq> []" using assms by auto
  have l: "last (xs[i := last xs]) = last xs"
    using assms by (metis last_list_update length_0_conv less_nat_zero_code)
  have "mset (xs[i := last xs]) = add_mset (last xs) (mset xs - {#xs ! i#})"
    using assms by (simp add: mset_update)
  moreover have "mset (xs[i := last xs]) = add_mset (last xs) (mset (swap_remove xs i))"
    using append_butlast_last_id [OF ne] l
    by (metis add_mset_add_single mset.simps(1) mset.simps(2) mset_append swap_remove_def)
  ultimately show ?thesis by simp
qed

section \<open>UTF-8\<close>

text \<open>
  \<^verbatim>\<open>std::str::from_utf8\<close> accepts exactly the well-formed UTF-8 byte sequences: no
  overlong forms, no surrogates, nothing above U+10FFFF. \<open>utf8_step\<close> removes the first
  scalar value's bytes.
\<close>

definition utf8_cont :: "u8 \<Rightarrow> bool" where
  "utf8_cont b \<longleftrightarrow> 128 \<le> unat b \<and> unat b \<le> 191"

definition utf8_second_ok :: "nat \<Rightarrow> nat \<Rightarrow> bool" where
  "utf8_second_ok b c \<longleftrightarrow>
     (if b = 224 then 160 \<le> c \<and> c \<le> 191
      else if b = 237 then 128 \<le> c \<and> c \<le> 159
      else if b = 240 then 144 \<le> c \<and> c \<le> 191
      else if b = 244 then 128 \<le> c \<and> c \<le> 143
      else 128 \<le> c \<and> c \<le> 191)"

definition utf8_step :: "bytes \<Rightarrow> bytes option" where
  "utf8_step bs = (case bs of [] \<Rightarrow> None | b0 # r \<Rightarrow>
     (let b = unat b0 in
      if b < 128 then Some r
      else if 194 \<le> b \<and> b \<le> 223 then
        (case r of c # r' \<Rightarrow> if utf8_cont c then Some r' else None | _ \<Rightarrow> None)
      else if 224 \<le> b \<and> b \<le> 239 then
        (case r of c # d # r' \<Rightarrow>
           if utf8_second_ok b (unat c) \<and> utf8_cont d then Some r' else None | _ \<Rightarrow> None)
      else if 240 \<le> b \<and> b \<le> 244 then
        (case r of c # d # e # r' \<Rightarrow>
           if utf8_second_ok b (unat c) \<and> utf8_cont d \<and> utf8_cont e then Some r' else None
         | _ \<Rightarrow> None)
      else None))"

lemma utf8_step_shorter: "utf8_step bs = Some r \<Longrightarrow> length r < length bs"
  by (auto simp: utf8_step_def Let_def split: list.splits if_splits)

function utf8_valid :: "bytes \<Rightarrow> bool" where
  "utf8_valid bs =
     (if bs = [] then True
      else case utf8_step bs of None \<Rightarrow> False | Some r \<Rightarrow> utf8_valid r)"
  by pat_completeness auto
termination
  by (relation "measure length") (auto dest: utf8_step_shorter)

declare utf8_valid.simps [simp del]

definition from_utf8 :: "bytes \<Rightarrow> rust_str option" where
  "from_utf8 bs = (if utf8_valid bs then Some bs else None)"

lemma utf8_valid_Nil [simp]: "utf8_valid []"
  by (simp add: utf8_valid.simps)

lemma utf8_valid_ascii_Cons [simp]: "unat b < 128 \<Longrightarrow> utf8_valid (b # bs) = utf8_valid bs"
  by (subst utf8_valid.simps) (simp add: utf8_step_def)

lemma utf8_valid_ascii: "(\<forall>b \<in> set bs. unat b < 128) \<Longrightarrow> utf8_valid bs"
  by (induction bs) simp_all

text \<open>ASCII literals of the source as Rust strings.\<close>

definition str_lit :: "string \<Rightarrow> rust_str" where
  "str_lit s = map of_char s"

end
