(* ===== verification/Siffleux_Error.thy ===== *)
theory Siffleux_Error
  imports Rust_Prelude
begin

text \<open>
  \<^verbatim>\<open>common/code.rs\<close> and \<^verbatim>\<open>common/error.rs\<close>: the close codes the two ends exchange, the
  error enumeration, and the conversions of the QUIC library's errors into it. The
  identifier types that errors carry are declared here too; their operations are in
  \<open>Identifiers\<close>.

  Of the QUIC library's error enumerations the source names some variants and treats the
  rest alike; those are the \<open>Other\<close> constructors, with the text they display.
\<close>

section \<open>Close codes\<close>

definition CONNECTION_EOF :: varint where "CONNECTION_EOF = 0"
definition COMMAND_STREAM_CLOSED :: varint where "COMMAND_STREAM_CLOSED = 1"
definition REJECTED_AUTH_KEY :: varint where "REJECTED_AUTH_KEY = 400"
definition REJECTED_INGRESS_ID :: varint where "REJECTED_INGRESS_ID = 401"
definition STREAM_EOF :: varint where "STREAM_EOF = 2000"
definition UNEXPECTED_FRAME_RECEIVED :: varint where "UNEXPECTED_FRAME_RECEIVED = 3001"
definition FRAME_NOT_RECEIVED_ON_TIME :: varint where "FRAME_NOT_RECEIVED_ON_TIME = 3002"
definition UNKNOWN_ERROR :: varint where "UNKNOWN_ERROR = 3999"

definition UNKNOWN_ERROR_SERVER_REASON :: string where
  "UNKNOWN_ERROR_SERVER_REASON = ''Unknown server side issue.''"
definition UNKNOWN_ERROR_CLIENT_REASON :: string where
  "UNKNOWN_ERROR_CLIENT_REASON = ''Unknown client side issue.''"

lemmas code_defs =
  CONNECTION_EOF_def COMMAND_STREAM_CLOSED_def REJECTED_AUTH_KEY_def REJECTED_INGRESS_ID_def
  STREAM_EOF_def UNEXPECTED_FRAME_RECEIVED_def FRAME_NOT_RECEIVED_ON_TIME_def UNKNOWN_ERROR_def

definition close_codes :: "varint list" where
  "close_codes = [CONNECTION_EOF, COMMAND_STREAM_CLOSED, REJECTED_AUTH_KEY, REJECTED_INGRESS_ID,
     STREAM_EOF, UNEXPECTED_FRAME_RECEIVED, FRAME_NOT_RECEIVED_ON_TIME, UNKNOWN_ERROR]"

lemma distinct_close_codes: "distinct close_codes"
  by (simp add: close_codes_def code_defs)

section \<open>Errors of the QUIC library and of the standard library\<close>

record application_close =
  error_code :: varint
  close_reason :: string

datatype connection_error =
    ApplicationClosed application_close
  | TransportError u64 string
  | LocallyClosed
  | ConnectionErrorOther string

datatype read_error = ReadConnectionLost connection_error | ReadErrorOther string
datatype write_error = WriteConnectionLost connection_error | WriteErrorOther string
datatype read_exact_error = ReadExactReadError read_error | ReadExactErrorOther string
datatype read_to_end_error = ReadToEndRead read_error | ReadToEndErrorOther string

text \<open>
  A \<^verbatim>\<open>std::io::Error\<close> by what its payload can be downcast to: a QUIC write error, a QUIC
  read error, or neither.
\<close>

datatype io_error = IoWrite write_error | IoRead read_error | IoOther string

section \<open>The error enumeration\<close>

datatype auth_key = AuthKey rust_str
datatype ingress_id = IngressId rust_str
datatype egress_id = EgressId rust_str
datatype server_id = ServerId rust_str

datatype error =
    FrameNotReceivedOnTime string
  | RejectedIngressId
  | RejectedAuthKey
  | UnexpectedFrameReceived string
  | Unknown boxed_error
  | AuthFrameNotReceived
  | ConnectionClosed
  | ClosedTunnel
  | ClosedStream
  | EgressAlreadyStarted
  | EgressNotStarted
  | IngressNoTunnelConnected
  | IngressAlreadyListening
  | IngressNotListening
  | InvalidAuthKey string
  | InvalidIngressId string
  | InvalidEgressId string
  | InvalidServerId string
  | InvalidTunnelName string
  | IncompatibleVersion u8 u8
  | ServerAlreadyListening
  | ServerNotListening
  | IngressIDAlreadyAssigned ingress_id
  | EgressIDAlreadyAssigned egress_id
  | TLS boxed_error
  | IO boxed_error
  | PoisonLock string
and boxed_error =
    BoxError error
  | BoxConnection connection_error
  | BoxTransport u64 string
  | BoxRead read_error
  | BoxWrite write_error
  | BoxReadExact read_exact_error
  | BoxReadToEnd read_to_end_error
  | BoxIo string
  | BoxOther string

section \<open>Conversions\<close>

definition CERTIFICATE_HASH_MISMATCH_CODE :: u64 where
  "CERTIFICATE_HASH_MISMATCH_CODE = 296"

definition from_connection_error :: "connection_error \<Rightarrow> error" where
  "from_connection_error e = (case e of
     ApplicationClosed ac \<Rightarrow>
       (if error_code ac = CONNECTION_EOF then ClosedTunnel
        else if error_code ac = REJECTED_AUTH_KEY then RejectedAuthKey
        else if error_code ac = REJECTED_INGRESS_ID then RejectedIngressId
        else Unknown (BoxConnection (ApplicationClosed ac)))
   | TransportError code msg \<Rightarrow>
       (if code = CERTIFICATE_HASH_MISMATCH_CODE then TLS (BoxTransport code msg)
        else Unknown (BoxTransport code msg))
   | LocallyClosed \<Rightarrow> ClosedTunnel
   | _ \<Rightarrow> Unknown (BoxConnection e))"

definition from_read_error :: "read_error \<Rightarrow> error" where
  "from_read_error e = (case e of
     ReadConnectionLost ce \<Rightarrow> from_connection_error ce
   | _ \<Rightarrow> Unknown (BoxRead e))"

definition from_read_exact_error :: "read_exact_error \<Rightarrow> error" where
  "from_read_exact_error e = (case e of
     ReadExactReadError re \<Rightarrow> from_read_error re
   | _ \<Rightarrow> Unknown (BoxReadExact e))"

definition from_read_to_end_error :: "read_to_end_error \<Rightarrow> error" where
  "from_read_to_end_error e = (case e of
     ReadToEndRead re \<Rightarrow> from_read_error re
   | _ \<Rightarrow> Unknown (BoxReadToEnd e))"

definition from_write_error :: "write_error \<Rightarrow> error" where
  "from_write_error e = (case e of
     WriteConnectionLost ce \<Rightarrow> from_connection_error ce
   | _ \<Rightarrow> Unknown (BoxWrite e))"

definition from_io_error :: "io_error \<Rightarrow> error" where
  "from_io_error e = (case e of
     IoWrite we \<Rightarrow> from_write_error we
   | IoRead re \<Rightarrow> from_read_error re
   | IoOther msg \<Rightarrow> IO (BoxIo msg))"

definition from_connect_error :: "string \<Rightarrow> error" where
  "from_connect_error msg = Unknown (BoxOther msg)"

definition from_rustls_error :: "string \<Rightarrow> error" where
  "from_rustls_error msg = TLS (BoxOther msg)"

definition from_closed_stream :: "unit \<Rightarrow> error" where
  "from_closed_stream _ = ClosedStream"

definition from_no_initial_cipher_suite :: "string \<Rightarrow> error" where
  "from_no_initial_cipher_suite msg = Unknown (BoxOther msg)"

definition from_poison_error :: "string \<Rightarrow> error" where
  "from_poison_error msg = PoisonLock msg"

definition from_uuid_error :: "string \<Rightarrow> error" where
  "from_uuid_error msg = Unknown (BoxOther msg)"

definition from_join_error :: "string \<Rightarrow> error" where
  "from_join_error msg = Unknown (BoxOther msg)"

definition from_utf8_error :: "string \<Rightarrow> error" where
  "from_utf8_error msg = Unknown (BoxOther msg)"

text \<open>A list of system calls, each followed by \<^verbatim>\<open>?\<close>: the first failure is the result.\<close>

fun first_io_error :: "(unit, io_error) result list \<Rightarrow> (unit, error) result" where
  "first_io_error [] = Ok ()"
| "first_io_error (Ok _ # rs) = first_io_error rs"
| "first_io_error (Err e # rs) = Err (from_io_error e)"
| "first_io_error (Panic # rs) = Panic"

lemmas from_defs [model_defs] =
  from_connection_error_def from_read_error_def from_read_exact_error_def
  from_read_to_end_error_def from_write_error_def from_io_error_def

section \<open>What the peer's close code becomes\<close>

lemma from_connection_error_ClosedTunnel:
  "from_connection_error e = ClosedTunnel \<longleftrightarrow>
     e = LocallyClosed \<or> (\<exists>ac. e = ApplicationClosed ac \<and> error_code ac = CONNECTION_EOF)"
  by (cases e) (simp_all add: from_connection_error_def)

lemma from_connection_error_rejected:
  "from_connection_error e = RejectedAuthKey \<longleftrightarrow>
     (\<exists>ac. e = ApplicationClosed ac \<and> error_code ac = REJECTED_AUTH_KEY)"
  "from_connection_error e = RejectedIngressId \<longleftrightarrow>
     (\<exists>ac. e = ApplicationClosed ac \<and> error_code ac = REJECTED_INGRESS_ID)"
  by (cases e; simp add: from_connection_error_def code_defs)+

lemma from_connection_error_TLS:
  "(\<exists>b. from_connection_error e = TLS b) \<longleftrightarrow>
     (\<exists>msg. e = TransportError CERTIFICATE_HASH_MISMATCH_CODE msg)"
  by (cases e) (auto simp: from_connection_error_def)

text \<open>The conversions never yield the errors that a start or a stop reports of itself.\<close>

lemma from_io_error_not_lifecycle [simp]:
  "from_io_error e \<noteq> IngressAlreadyListening"
  "from_io_error e \<noteq> ServerAlreadyListening"
  "from_io_error e \<noteq> EgressNotStarted"
  by (auto simp: model_defs split: io_error.splits read_error.splits write_error.splits
      connection_error.splits)

text \<open>
  Whatever layer reports the loss of the connection, the error is the one of the
  connection: the conversions commute with the wrapping.
\<close>

lemma from_wrapped_connection_error [simp]:
  "from_read_error (ReadConnectionLost e) = from_connection_error e"
  "from_write_error (WriteConnectionLost e) = from_connection_error e"
  "from_read_exact_error (ReadExactReadError re) = from_read_error re"
  "from_read_to_end_error (ReadToEndRead re) = from_read_error re"
  "from_io_error (IoRead re) = from_read_error re"
  "from_io_error (IoWrite we) = from_write_error we"
  by (simp_all add: model_defs)

lemma first_io_error_not_lifecycle: "first_io_error rs \<noteq> Err IngressAlreadyListening"
  by (induction rs rule: first_io_error.induct) auto

section \<open>Properties\<close>

text \<open>
  A lost connection is reported alike whichever layer notices it (the connection, a read,
  a write, or either behind an I/O error of the standard library), and its cause can be told
  from the error: closed by either side on purpose, key rejected, ingress rejected, or
  certificate not accepted, each for exactly one cause.
\<close>

lemma lost_connection_classified:
  "from_read_error (ReadConnectionLost e) = from_connection_error e \<and>
   from_write_error (WriteConnectionLost e) = from_connection_error e \<and>
   from_read_exact_error (ReadExactReadError (ReadConnectionLost e)) = from_connection_error e \<and>
   from_read_to_end_error (ReadToEndRead (ReadConnectionLost e)) = from_connection_error e \<and>
   from_io_error (IoRead (ReadConnectionLost e)) = from_connection_error e \<and>
   from_io_error (IoWrite (WriteConnectionLost e)) = from_connection_error e \<and>
   (from_connection_error e = ClosedTunnel \<longleftrightarrow>
      e = LocallyClosed \<or> (\<exists>ac. e = ApplicationClosed ac \<and> error_code ac = CONNECTION_EOF)) \<and>
   (from_connection_error e = RejectedAuthKey \<longleftrightarrow>
      (\<exists>ac. e = ApplicationClosed ac \<and> error_code ac = REJECTED_AUTH_KEY)) \<and>
   (from_connection_error e = RejectedIngressId \<longleftrightarrow>
      (\<exists>ac. e = ApplicationClosed ac \<and> error_code ac = REJECTED_INGRESS_ID)) \<and>
   ((\<exists>b. from_connection_error e = TLS b) \<longleftrightarrow>
      (\<exists>msg. e = TransportError CERTIFICATE_HASH_MISMATCH_CODE msg))"
  by (simp add: from_connection_error_ClosedTunnel from_connection_error_rejected from_connection_error_TLS)

end
