(* ===== verification/Identifiers.thy ===== *)
theory Identifiers
  imports Siffleux_Error
begin

text \<open>
  The four identifier types: \<^verbatim>\<open>common/auth_key.rs\<close>, \<^verbatim>\<open>server/ingress/ingress_id.rs\<close>,
  \<^verbatim>\<open>client/egress/egress_id.rs\<close> and \<^verbatim>\<open>server/server_id.rs\<close>. Each wraps a string of 1 to
  255 bytes behind a private field, built only by \<^verbatim>\<open>new\<close> (to which \<^verbatim>\<open>try_from\<close> and
  \<^verbatim>\<open>from_str\<close> delegate) or \<^verbatim>\<open>from_bytes\<close>. The locale \<open>bounded_id\<close> states the contract they
  share, which is what the frame codec and the configuration loader rely on.
\<close>

section \<open>Operations\<close>

text \<open>
  \<^verbatim>\<open>Display\<close> of a string on a formatter without width and precision, which is all the program
  uses: the text is appended to what has been written. Keys have no \<^verbatim>\<open>Display\<close>.
\<close>

definition str_fmt :: "rust_str \<Rightarrow> rust_str \<Rightarrow> (rust_str, unit) result" where
  "str_fmt s f = Ok (f @ s)"

subsection \<open>Auth keys\<close>

definition MAX_LENGTH :: nat where "MAX_LENGTH = 255"

definition auth_key_new :: "rust_str \<Rightarrow> (auth_key, error) result" where
  "auth_key_new value =
     (if value = [] then Err (InvalidAuthKey ''Auth key can't be empty.'')
      else if length value > MAX_LENGTH
        then Err (InvalidAuthKey ''Auth key max length is 255 bytes.'')
      else Ok (AuthKey value))"

definition auth_key_from_bytes :: "bytes \<Rightarrow> (auth_key, error) result" where
  "auth_key_from_bytes bs = (case from_utf8 bs of
     None \<Rightarrow> Err (InvalidAuthKey ''Invalid auth key UTF8 bytes.'')
   | Some s \<Rightarrow> auth_key_new s)"

fun auth_key_to_str :: "auth_key \<Rightarrow> rust_str" where
  "auth_key_to_str (AuthKey s) = s"

definition auth_key_try_from :: "rust_str \<Rightarrow> (auth_key, error) result" where
  "auth_key_try_from value = auth_key_new value"

definition auth_key_from_str :: "rust_str \<Rightarrow> (auth_key, error) result" where
  "auth_key_from_str s = auth_key_new s"

subsection \<open>Ingress ids\<close>

definition INGRESS_ID_MAX_LENGTH :: nat where "INGRESS_ID_MAX_LENGTH = 255"

definition ingress_id_new :: "rust_str \<Rightarrow> (ingress_id, error) result" where
  "ingress_id_new value =
     (if value = [] \<or> length value > INGRESS_ID_MAX_LENGTH
      then Err (InvalidIngressId ''Ingress ID has to be between 1 and 255 UTF8 bytes.'')
      else Ok (IngressId value))"

definition ingress_id_from_bytes :: "bytes \<Rightarrow> (ingress_id, error) result" where
  "ingress_id_from_bytes bs = (case from_utf8 bs of
     None \<Rightarrow> Err (InvalidIngressId ''Invalid ingress ID UTF8 bytes.'')
   | Some s \<Rightarrow> ingress_id_new s)"

fun ingress_id_to_str :: "ingress_id \<Rightarrow> rust_str" where
  "ingress_id_to_str (IngressId s) = s"

definition ingress_id_len :: "ingress_id \<Rightarrow> nat" where
  "ingress_id_len i = length (ingress_id_to_str i)"

definition ingress_id_try_from :: "rust_str \<Rightarrow> (ingress_id, error) result" where
  "ingress_id_try_from value = ingress_id_new value"

definition ingress_id_from_str :: "rust_str \<Rightarrow> (ingress_id, error) result" where
  "ingress_id_from_str s = ingress_id_new s"

definition ingress_id_fmt :: "ingress_id \<Rightarrow> rust_str \<Rightarrow> (rust_str, unit) result" where
  "ingress_id_fmt self f = and_then (str_fmt (ingress_id_to_str self) f) (\<lambda>f. Ok f)"

subsection \<open>Egress ids\<close>

definition EGRESS_ID_MAX_LENGTH :: nat where "EGRESS_ID_MAX_LENGTH = 255"

definition egress_id_new :: "rust_str \<Rightarrow> (egress_id, error) result" where
  "egress_id_new value =
     (if value = [] \<or> length value > EGRESS_ID_MAX_LENGTH
      then Err (InvalidEgressId ''Egress ID has to be between 1 and 255 UTF8 bytes.'')
      else Ok (EgressId value))"

definition egress_id_from_bytes :: "bytes \<Rightarrow> (egress_id, error) result" where
  "egress_id_from_bytes bs = (case from_utf8 bs of
     None \<Rightarrow> Err (InvalidEgressId ''Invalid egress ID UTF8 bytes.'')
   | Some s \<Rightarrow> egress_id_new s)"

fun egress_id_to_str :: "egress_id \<Rightarrow> rust_str" where
  "egress_id_to_str (EgressId s) = s"

definition egress_id_len :: "egress_id \<Rightarrow> nat" where
  "egress_id_len i = length (egress_id_to_str i)"

definition egress_id_try_from :: "rust_str \<Rightarrow> (egress_id, error) result" where
  "egress_id_try_from value = egress_id_new value"

definition egress_id_from_str :: "rust_str \<Rightarrow> (egress_id, error) result" where
  "egress_id_from_str s = egress_id_new s"

definition egress_id_fmt :: "egress_id \<Rightarrow> rust_str \<Rightarrow> (rust_str, unit) result" where
  "egress_id_fmt self f = and_then (str_fmt (egress_id_to_str self) f) (\<lambda>f. Ok f)"

subsection \<open>Server ids\<close>

definition SERVER_ID_MAX_LENGTH :: nat where "SERVER_ID_MAX_LENGTH = 255"

definition server_id_new :: "rust_str \<Rightarrow> (server_id, error) result" where
  "server_id_new value =
     (if value = [] \<or> length value > SERVER_ID_MAX_LENGTH
      then Err (InvalidServerId ''Server ID has to be between 1 and 255 UTF8 bytes.'')
      else Ok (ServerId value))"

definition server_id_from_bytes :: "bytes \<Rightarrow> (server_id, error) result" where
  "server_id_from_bytes bs = (case from_utf8 bs of
     None \<Rightarrow> Err (InvalidServerId ''Invalid server ID UTF8 bytes.'')
   | Some s \<Rightarrow> server_id_new s)"

fun server_id_to_str :: "server_id \<Rightarrow> rust_str" where
  "server_id_to_str (ServerId s) = s"

definition server_id_len :: "server_id \<Rightarrow> nat" where
  "server_id_len i = length (server_id_to_str i)"

definition server_id_try_from :: "rust_str \<Rightarrow> (server_id, error) result" where
  "server_id_try_from value = server_id_new value"

definition server_id_from_str :: "rust_str \<Rightarrow> (server_id, error) result" where
  "server_id_from_str s = server_id_new s"

definition server_id_fmt :: "server_id \<Rightarrow> rust_str \<Rightarrow> (rust_str, unit) result" where
  "server_id_fmt self f = and_then (str_fmt (server_id_to_str self) f) (\<lambda>f. Ok f)"

lemmas id_max_defs = MAX_LENGTH_def INGRESS_ID_MAX_LENGTH_def EGRESS_ID_MAX_LENGTH_def
  SERVER_ID_MAX_LENGTH_def
lemmas id_new_defs = auth_key_new_def ingress_id_new_def egress_id_new_def server_id_new_def
lemmas id_parse_defs = auth_key_try_from_def ingress_id_try_from_def egress_id_try_from_def
  server_id_try_from_def auth_key_from_str_def ingress_id_from_str_def egress_id_from_str_def
  server_id_from_str_def
lemmas id_fmt_defs = ingress_id_fmt_def egress_id_fmt_def server_id_fmt_def str_fmt_def
lemmas id_from_bytes_defs = auth_key_from_bytes_def ingress_id_from_bytes_def
  egress_id_from_bytes_def server_id_from_bytes_def

section \<open>The contract\<close>

text \<open>What every value of such a type satisfies: 1 to 255 bytes of valid UTF-8.\<close>

definition id_text_ok :: "rust_str \<Rightarrow> bool" where
  "id_text_ok s \<longleftrightarrow> s \<noteq> [] \<and> length s \<le> 255 \<and> utf8_valid s"

locale bounded_id =
  fixes mk :: "rust_str \<Rightarrow> ('i, error) result"
    and parse :: "bytes \<Rightarrow> ('i, error) result"
    and text_of :: "'i \<Rightarrow> rust_str"
  assumes mk_ok: "s \<noteq> [] \<Longrightarrow> length s \<le> 255 \<Longrightarrow> \<exists>i. mk s = Ok i \<and> text_of i = s"
    and mk_bad: "s = [] \<or> 255 < length s \<Longrightarrow> \<exists>e. mk s = Err e"
    and parse_utf8: "utf8_valid s \<Longrightarrow> parse s = mk s"
    and parse_bad: "\<not> utf8_valid s \<Longrightarrow> \<exists>e. parse s = Err e"
    and text_inj: "text_of i = text_of j \<Longrightarrow> i = j"
begin

lemma mk_no_panic: "mk s \<noteq> Panic"
  using mk_ok [of s] mk_bad [of s] by (cases "s = [] \<or> 255 < length s") force+

lemma mk_eq_Ok: "mk s = Ok i \<longleftrightarrow> s \<noteq> [] \<and> length s \<le> 255 \<and> text_of i = s"
proof
  assume i: "mk s = Ok i"
  then have "\<not> (s = [] \<or> 255 < length s)" using mk_bad by fastforce
  then show "s \<noteq> [] \<and> length s \<le> 255 \<and> text_of i = s" using i mk_ok [of s] by fastforce
next
  assume s: "s \<noteq> [] \<and> length s \<le> 255 \<and> text_of i = s"
  then obtain j where "mk s = Ok j" "text_of j = s" using mk_ok by blast
  with s show "mk s = Ok i" using text_inj [of j i] by simp
qed

lemma parse_no_panic: "parse s \<noteq> Panic"
  using parse_utf8 [of s] parse_bad [of s] mk_no_panic [of s] by (cases "utf8_valid s") force+

lemma parse_eq_Ok: "parse s = Ok i \<longleftrightarrow> id_text_ok s \<and> text_of i = s"
proof (cases "utf8_valid s")
  case True
  then show ?thesis by (auto simp: parse_utf8 mk_eq_Ok id_text_ok_def)
next
  case False
  then show ?thesis using parse_bad [of s] by (auto simp: id_text_ok_def)
qed

lemma parse_text: "id_text_ok (text_of i) \<Longrightarrow> parse (text_of i) = Ok i"
  by (simp add: parse_eq_Ok)

lemma wf_length: "id_text_ok (text_of i) \<Longrightarrow> length (text_of i) < 256"
  by (simp add: id_text_ok_def)

lemma mk_eq_Err: "(\<exists>e. mk s = Err e) \<longleftrightarrow> s = [] \<or> 255 < length s"
proof -
  have "(\<exists>e. mk s = Err e) \<longleftrightarrow> \<not> (\<exists>i. mk s = Ok i)"
    by (cases "mk s") (use mk_no_panic [of s] in auto)
  then show ?thesis using mk_ok [of s] mk_bad [of s] by fastforce
qed

end

text \<open>
  The parsers are the constructor under other names; ids (not keys) can also be printed, and
  what was printed is parsed back.
\<close>

locale parsed_id = bounded_id +
  fixes try_from :: "rust_str \<Rightarrow> ('a, error) result"
    and from_str :: "rust_str \<Rightarrow> ('a, error) result"
  assumes try_from_mk: "try_from = mk"
    and from_str_mk: "from_str = mk"
begin

lemma try_from_eq_Ok: "try_from s = Ok i \<longleftrightarrow> s \<noteq> [] \<and> length s \<le> 255 \<and> text_of i = s"
  by (simp add: try_from_mk mk_eq_Ok)

lemma from_str_eq_Ok: "from_str s = Ok i \<longleftrightarrow> s \<noteq> [] \<and> length s \<le> 255 \<and> text_of i = s"
  by (simp add: from_str_mk mk_eq_Ok)

lemma none_panics: "Panic \<notin> {mk s, try_from s, from_str s, parse s}"
  using mk_no_panic [of s] parse_no_panic [of s] by (simp add: try_from_mk from_str_mk)

end

locale displayed_id = parsed_id +
  fixes fmt :: "'a \<Rightarrow> rust_str \<Rightarrow> (rust_str, unit) result"
  assumes fmt_appends: "fmt i f = Ok (f @ text_of i)"
begin

lemma display_parse: "from_str s = Ok i \<longleftrightarrow> s \<noteq> [] \<and> length s \<le> 255 \<and> fmt i [] = Ok s"
  by (auto simp: from_str_mk mk_eq_Ok fmt_appends)

end

text \<open>All four types keep the contract.\<close>

interpretation auth_key: parsed_id auth_key_new auth_key_from_bytes auth_key_to_str auth_key_try_from auth_key_from_str
proof
  fix i j :: auth_key
  show "auth_key_to_str i = auth_key_to_str j \<Longrightarrow> i = j" by (cases i; cases j) simp
qed (auto simp: id_new_defs id_from_bytes_defs id_max_defs from_utf8_def id_parse_defs id_fmt_defs)

interpretation ingress_id: displayed_id ingress_id_new ingress_id_from_bytes ingress_id_to_str ingress_id_try_from ingress_id_from_str ingress_id_fmt
proof
  fix i j :: ingress_id
  show "ingress_id_to_str i = ingress_id_to_str j \<Longrightarrow> i = j" by (cases i; cases j) simp
qed (auto simp: id_new_defs id_from_bytes_defs id_max_defs from_utf8_def id_parse_defs id_fmt_defs)

interpretation egress_id: displayed_id egress_id_new egress_id_from_bytes egress_id_to_str egress_id_try_from egress_id_from_str egress_id_fmt
proof
  fix i j :: egress_id
  show "egress_id_to_str i = egress_id_to_str j \<Longrightarrow> i = j" by (cases i; cases j) simp
qed (auto simp: id_new_defs id_from_bytes_defs id_max_defs from_utf8_def id_parse_defs id_fmt_defs)

interpretation server_id: displayed_id server_id_new server_id_from_bytes server_id_to_str server_id_try_from server_id_from_str server_id_fmt
proof
  fix i j :: server_id
  show "server_id_to_str i = server_id_to_str j \<Longrightarrow> i = j" by (cases i; cases j) simp
qed (auto simp: id_new_defs id_from_bytes_defs id_max_defs from_utf8_def id_parse_defs id_fmt_defs)

section \<open>Properties\<close>

text \<open>
  C21. The identifier types hold exactly the strings of 1 to 255 bytes: for keys, ingress ids,
  egress ids and server ids alike, the constructor and both conversions from a string accept
  just those, the one from bytes of the network just those that are UTF-8 too; each keeps
  the text and none of them panics. Printing an id (keys cannot be printed) gives the text
  that parses back to it.
\<close>

theorem identifier_types_exact:
  "(auth_key_new s = Ok k \<longleftrightarrow> s \<noteq> [] \<and> length s \<le> 255 \<and> auth_key_to_str k = s) \<and>
   (auth_key_try_from s = Ok k \<longleftrightarrow> s \<noteq> [] \<and> length s \<le> 255 \<and> auth_key_to_str k = s) \<and>
   (auth_key_from_str s = Ok k \<longleftrightarrow> s \<noteq> [] \<and> length s \<le> 255 \<and> auth_key_to_str k = s) \<and>
   (auth_key_from_bytes s = Ok k \<longleftrightarrow> id_text_ok s \<and> auth_key_to_str k = s) \<and>
   Panic \<notin> {auth_key_new s, auth_key_try_from s, auth_key_from_str s, auth_key_from_bytes s} \<and>
   (ingress_id_new s = Ok i \<longleftrightarrow> s \<noteq> [] \<and> length s \<le> 255 \<and> ingress_id_to_str i = s) \<and>
   (ingress_id_try_from s = Ok i \<longleftrightarrow> s \<noteq> [] \<and> length s \<le> 255 \<and> ingress_id_to_str i = s) \<and>
   (ingress_id_from_str s = Ok i \<longleftrightarrow> s \<noteq> [] \<and> length s \<le> 255 \<and> ingress_id_to_str i = s) \<and>
   (ingress_id_from_bytes s = Ok i \<longleftrightarrow> id_text_ok s \<and> ingress_id_to_str i = s) \<and>
   (ingress_id_from_str s = Ok i \<longleftrightarrow> s \<noteq> [] \<and> length s \<le> 255 \<and> ingress_id_fmt i [] = Ok s) \<and>
   Panic \<notin> {ingress_id_new s, ingress_id_try_from s, ingress_id_from_str s, ingress_id_from_bytes s} \<and>
   (egress_id_new s = Ok e \<longleftrightarrow> s \<noteq> [] \<and> length s \<le> 255 \<and> egress_id_to_str e = s) \<and>
   (egress_id_try_from s = Ok e \<longleftrightarrow> s \<noteq> [] \<and> length s \<le> 255 \<and> egress_id_to_str e = s) \<and>
   (egress_id_from_str s = Ok e \<longleftrightarrow> s \<noteq> [] \<and> length s \<le> 255 \<and> egress_id_to_str e = s) \<and>
   (egress_id_from_bytes s = Ok e \<longleftrightarrow> id_text_ok s \<and> egress_id_to_str e = s) \<and>
   (egress_id_from_str s = Ok e \<longleftrightarrow> s \<noteq> [] \<and> length s \<le> 255 \<and> egress_id_fmt e [] = Ok s) \<and>
   Panic \<notin> {egress_id_new s, egress_id_try_from s, egress_id_from_str s, egress_id_from_bytes s} \<and>
   (server_id_new s = Ok v \<longleftrightarrow> s \<noteq> [] \<and> length s \<le> 255 \<and> server_id_to_str v = s) \<and>
   (server_id_try_from s = Ok v \<longleftrightarrow> s \<noteq> [] \<and> length s \<le> 255 \<and> server_id_to_str v = s) \<and>
   (server_id_from_str s = Ok v \<longleftrightarrow> s \<noteq> [] \<and> length s \<le> 255 \<and> server_id_to_str v = s) \<and>
   (server_id_from_bytes s = Ok v \<longleftrightarrow> id_text_ok s \<and> server_id_to_str v = s) \<and>
   (server_id_from_str s = Ok v \<longleftrightarrow> s \<noteq> [] \<and> length s \<le> 255 \<and> server_id_fmt v [] = Ok s) \<and>
   Panic \<notin> {server_id_new s, server_id_try_from s, server_id_from_str s, server_id_from_bytes s}"
  by (intro conjI auth_key.mk_eq_Ok auth_key.try_from_eq_Ok auth_key.from_str_eq_Ok auth_key.parse_eq_Ok
      auth_key.none_panics ingress_id.mk_eq_Ok ingress_id.try_from_eq_Ok ingress_id.from_str_eq_Ok
      ingress_id.parse_eq_Ok ingress_id.none_panics ingress_id.display_parse egress_id.mk_eq_Ok
      egress_id.try_from_eq_Ok egress_id.from_str_eq_Ok egress_id.parse_eq_Ok egress_id.none_panics
      egress_id.display_parse server_id.mk_eq_Ok server_id.try_from_eq_Ok server_id.from_str_eq_Ok
      server_id.parse_eq_Ok server_id.none_panics server_id.display_parse)

end
