(* ===== verification/Frames_V1.thy ===== *)
theory Frames_V1
  imports Identifiers
begin

text \<open>
  \<^verbatim>\<open>common/frames/v1.rs\<close>: the command-stream codec \<^verbatim>\<open>CodecV1\<close> and the datagram header that
  carries a UDP peer's address through the tunnel.

  The buffers are those of the \<^verbatim>\<open>bytes\<close> crate and the tunnel ids those of the \<^verbatim>\<open>uuid\<close> crate.
  Both crates are parameters: a record of the operations the source calls, and a contract
  that states their documented behaviour. An operation that panics returns \<open>None\<close>.
\<close>

section \<open>The crates the codec calls\<close>

record bytes_crate =
  put_u8 :: "bytes \<Rightarrow> u8 \<Rightarrow> bytes"
  put_u16 :: "bytes \<Rightarrow> u16 \<Rightarrow> bytes"
  put_slice :: "bytes \<Rightarrow> bytes \<Rightarrow> bytes"
  get_u8 :: "bytes \<Rightarrow> (u8 \<times> bytes) option"
  get_u16 :: "bytes \<Rightarrow> (u16 \<times> bytes) option"
  copy_to_slice :: "bytes \<Rightarrow> nat \<Rightarrow> (bytes \<times> bytes) option"
  advance :: "bytes \<Rightarrow> nat \<Rightarrow> bytes option"
  split_to :: "bytes \<Rightarrow> nat \<Rightarrow> (bytes \<times> bytes) option"

definition bytes_contract :: "bytes_crate \<Rightarrow> bool" where
  "bytes_contract B \<longleftrightarrow>
     (\<forall>d x. put_u8 B d x = d @ [x]) \<and>
     (\<forall>d x. put_u16 B d x = d @ u16_to_be x) \<and>
     (\<forall>d xs. put_slice B d xs = d @ xs) \<and>
     (\<forall>s. get_u8 B s = (case s of [] \<Rightarrow> None | x # r \<Rightarrow> Some (x, r))) \<and>
     (\<forall>s. get_u16 B s = (case s of x # y # r \<Rightarrow> Some (u16_from_be x y, r) | _ \<Rightarrow> None)) \<and>
     (\<forall>s n. copy_to_slice B s n = (if n \<le> length s then Some (take n s, drop n s) else None)) \<and>
     (\<forall>s n. advance B s n = (if n \<le> length s then Some (drop n s) else None)) \<and>
     (\<forall>s n. split_to B s n = (if n \<le> length s then Some (take n s, drop n s) else None))"

record 'u uuid_crate =
  uuid_as_bytes :: "'u \<Rightarrow> bytes"
  uuid_from_slice :: "bytes \<Rightarrow> 'u option"

definition uuid_contract :: "'u uuid_crate \<Rightarrow> bool" where
  "uuid_contract U \<longleftrightarrow>
     (\<forall>u. length (uuid_as_bytes U u) = 16) \<and>
     (\<forall>u. uuid_from_slice U (uuid_as_bytes U u) = Some u) \<and>
     (\<forall>bs. length bs = 16 \<longrightarrow> (\<exists>u. uuid_from_slice U bs = Some u \<and> uuid_as_bytes U u = bs)) \<and>
     (\<forall>bs. length bs \<noteq> 16 \<longrightarrow> uuid_from_slice U bs = None)"

lemma bytes_laws [crate_laws]:
  assumes "bytes_contract B"
  shows "put_u8 B d x = d @ [x]"
    and "put_u16 B d w = d @ u16_to_be w"
    and "put_slice B d xs = d @ xs"
    and "get_u8 B [] = None"
    and "get_u8 B (x # r) = Some (x, r)"
    and "get_u16 B s = (case s of x # y # r \<Rightarrow> Some (u16_from_be x y, r) | _ \<Rightarrow> None)"
    and "copy_to_slice B s n = (if n \<le> length s then Some (take n s, drop n s) else None)"
    and "advance B s n = (if n \<le> length s then Some (drop n s) else None)"
    and "split_to B s n = (if n \<le> length s then Some (take n s, drop n s) else None)"
  using assms by (simp_all add: bytes_contract_def)

lemma uuid_laws [crate_laws]:
  assumes "uuid_contract U"
  shows "length (uuid_as_bytes U u) = 16"
    and "uuid_from_slice U (uuid_as_bytes U u) = Some u"
    and "length bs \<noteq> 16 \<Longrightarrow> uuid_from_slice U bs = None"
  using assms by (simp_all add: uuid_contract_def)

lemma uuid_from_slice_16:
  assumes "uuid_contract U" and "length bs = 16"
  obtains u where "uuid_from_slice U bs = Some u" and "uuid_as_bytes U u = bs"
  using assms by (auto simp: uuid_contract_def)

section \<open>Frames\<close>

definition VERSION :: string where "VERSION = ''siffleux/v1''"

definition AUTH_TYPE :: u8 where "AUTH_TYPE = 0"
definition AUTHENTICATED_TYPE :: u8 where "AUTHENTICATED_TYPE = 1"
definition PING_TYPE :: u8 where "PING_TYPE = 3"
definition PONG_TYPE :: u8 where "PONG_TYPE = 4"
definition UDP_IPV4_ORIGIN :: u8 where "UDP_IPV4_ORIGIN = 0"
definition UDP_IPV6_ORIGIN :: u8 where "UDP_IPV6_ORIGIN = 1"

lemmas type_defs = AUTH_TYPE_def AUTHENTICATED_TYPE_def PING_TYPE_def PONG_TYPE_def
lemmas origin_defs = UDP_IPV4_ORIGIN_def UDP_IPV6_ORIGIN_def

datatype 'u frame_v1 =
    Auth auth_key ingress_id
  | Authenticated 'u server_id
  | Ping
  | Pong

text \<open>The type invariants of the identifiers a frame carries.\<close>

fun frame_ok :: "'u frame_v1 \<Rightarrow> bool" where
  "frame_ok (Auth k i) \<longleftrightarrow> id_text_ok (auth_key_to_str k) \<and> id_text_ok (ingress_id_to_str i)"
| "frame_ok (Authenticated u s) \<longleftrightarrow> id_text_ok (server_id_to_str s)"
| "frame_ok Ping \<longleftrightarrow> True"
| "frame_ok Pong \<longleftrightarrow> True"

subsection \<open>Encoder\<close>

fun encode :: "bytes_crate \<Rightarrow> 'u uuid_crate \<Rightarrow> 'u frame_v1 \<Rightarrow> bytes \<Rightarrow> (bytes, error) result" where
  "encode B U (Auth auth_key ingress_id) dst =
     (let auth_key_str = auth_key_to_str auth_key;
          ingress_id_str = ingress_id_to_str ingress_id;
          payload_length = (1 + length auth_key_str) + (1 + length ingress_id_str);
          dst = put_u8 B dst AUTH_TYPE;
          dst = put_u16 B dst (of_nat payload_length);
          dst = put_u8 B dst (of_nat (length auth_key_str));
          dst = put_slice B dst auth_key_str;
          dst = put_u8 B dst (of_nat (length ingress_id_str));
          dst = put_slice B dst ingress_id_str
      in Ok dst)"
| "encode B U (Authenticated tunnel_id server_id) dst =
     (let server_id_str = server_id_to_str server_id;
          payload_length = (1 + length server_id_str) + 16;
          dst = put_u8 B dst AUTHENTICATED_TYPE;
          dst = put_u16 B dst (of_nat payload_length);
          dst = put_u8 B dst (of_nat (length server_id_str));
          dst = put_slice B dst server_id_str;
          dst = put_slice B dst (uuid_as_bytes U tunnel_id)
      in Ok dst)"
| "encode B U Ping dst = Ok (put_u8 B dst PING_TYPE)"
| "encode B U Pong dst = Ok (put_u8 B dst PONG_TYPE)"

subsection \<open>Decoder\<close>

text \<open>
  \<open>decode\<close> returns the frame, if one is complete, with what is left of the buffer. The
  length checks are the source's: the header is read by indexing, the two length bytes of
  an auth frame are not compared with the payload length.
\<close>

definition decode_auth :: "bytes_crate \<Rightarrow> bytes \<Rightarrow> ('u frame_v1 option \<times> bytes, error) result" where
  "decode_auth B src =
     and_then (index src 1) (\<lambda>b1. and_then (index src 2) (\<lambda>b2.
     let payload_length = unat (u16_from_be b1 b2) in
     if length src < 1 + 2 + payload_length then Ok (None, src)
     else
       and_then (or_panic (advance B src 3)) (\<lambda>src.
       and_then (or_panic (get_u8 B src)) (\<lambda>(auth_key_len, src).
       and_then (or_panic (split_to B src (unat auth_key_len))) (\<lambda>(auth_key_bytes, src).
       and_then (or_panic (get_u8 B src)) (\<lambda>(ingress_id_len, src).
       and_then (or_panic (split_to B src (unat ingress_id_len))) (\<lambda>(ingress_id_bytes, src).
       and_then (auth_key_from_bytes auth_key_bytes) (\<lambda>auth_key.
       and_then (ingress_id_from_bytes ingress_id_bytes) (\<lambda>ingress_id.
         Ok (Some (Auth auth_key ingress_id), src))))))))))"

definition decode_authenticated ::
    "bytes_crate \<Rightarrow> 'u uuid_crate \<Rightarrow> bytes \<Rightarrow> ('u frame_v1 option \<times> bytes, error) result" where
  "decode_authenticated B U src =
     and_then (index src 1) (\<lambda>b1. and_then (index src 2) (\<lambda>b2.
     let payload_length = unat (u16_from_be b1 b2) in
     if length src < 1 + 2 + payload_length then Ok (None, src)
     else
       and_then (or_panic (advance B src 3)) (\<lambda>src.
       and_then (or_panic (get_u8 B src)) (\<lambda>(server_id_len, src).
       and_then (or_panic (split_to B src (unat server_id_len))) (\<lambda>(server_id_bytes, src).
       and_then (or_panic (split_to B src 16)) (\<lambda>(tunnel_id_bytes, src).
       and_then (server_id_from_bytes server_id_bytes) (\<lambda>server_id.
       and_then (case uuid_from_slice U tunnel_id_bytes of
                   Some tunnel_id \<Rightarrow> Ok tunnel_id
                 | None \<Rightarrow> Err (from_uuid_error ''invalid length'')) (\<lambda>tunnel_id.
         Ok (Some (Authenticated tunnel_id server_id), src)))))))))"

definition decode ::
    "bytes_crate \<Rightarrow> 'u uuid_crate \<Rightarrow> bytes \<Rightarrow> ('u frame_v1 option \<times> bytes, error) result" where
  "decode B U src =
     (if length src = 0 then Ok (None, src)
      else
        let frame_type = src ! 0 in
        if frame_type = AUTH_TYPE then decode_auth B src
        else if frame_type = AUTHENTICATED_TYPE then decode_authenticated B U src
        else if frame_type = PING_TYPE then
          and_then (or_panic (advance B src 1)) (\<lambda>src. Ok (Some Ping, src))
        else if frame_type = PONG_TYPE then
          and_then (or_panic (advance B src 1)) (\<lambda>src. Ok (Some Pong, src))
        else Ok (None, src))"

section \<open>Datagrams\<close>

text \<open>
  A \<^verbatim>\<open>std::net::SocketAddr\<close>: the octets of the address (an array of 4 or of 16 bytes), the
  port, and for IPv6 the flow information and the scope.
\<close>

datatype socket_addr =
    SocketAddrV4 bytes u16
  | SocketAddrV6 bytes u16 u32 u32

fun socket_addr_ok :: "socket_addr \<Rightarrow> bool" where
  "socket_addr_ok (SocketAddrV4 octets port) \<longleftrightarrow> length octets = 4"
| "socket_addr_ok (SocketAddrV6 octets port flowinfo scope_id) \<longleftrightarrow> length octets = 16"

fun to_datagram ::
    "bytes_crate \<Rightarrow> socket_addr \<Rightarrow> bytes \<Rightarrow> nat \<Rightarrow> (bytes, error) result" where
  "to_datagram B (SocketAddrV4 octets port) data data_size =
     (let bs = put_u8 B [] UDP_IPV4_ORIGIN;
          bs = put_slice B bs octets;
          bs = put_u16 B bs port
      in and_then (slice_to data data_size) (\<lambda>payload. Ok (put_slice B bs payload)))"
| "to_datagram B (SocketAddrV6 octets port flowinfo scope_id) data data_size =
     (let bs = put_u8 B [] UDP_IPV6_ORIGIN;
          bs = put_slice B bs octets;
          bs = put_u16 B bs port
      in and_then (slice_to data data_size) (\<lambda>payload. Ok (put_slice B bs payload)))"

definition extract_origin_socket_addr_from_datagram ::
    "bytes_crate \<Rightarrow> bytes \<Rightarrow> (socket_addr option \<times> bytes, error) result" where
  "extract_origin_socket_addr_from_datagram B bs =
     and_then (or_panic (get_u8 B bs)) (\<lambda>(tag, bs).
       if tag = UDP_IPV4_ORIGIN then
         and_then (or_panic (copy_to_slice B bs 4)) (\<lambda>(octets, bs).
         and_then (or_panic (get_u16 B bs)) (\<lambda>(port, bs).
           Ok (Some (SocketAddrV4 octets port), bs)))
       else if tag = UDP_IPV6_ORIGIN then
         and_then (or_panic (copy_to_slice B bs 16)) (\<lambda>(octets, bs).
         and_then (or_panic (get_u16 B bs)) (\<lambda>(port, bs).
           Ok (Some (SocketAddrV6 octets port 0 0), bs)))
       else Ok (None, bs))"

section \<open>Specification\<close>

text \<open>
  The wire format as one expression per frame, when the decoder panics as a predicate on
  the buffer, and the datagram header. \<open>encode_all\<close> and \<open>decode_all\<close> run a codec over a
  list of frames, the way a framed sink and a framed stream call it.
\<close>

fun frame_bytes :: "'u uuid_crate \<Rightarrow> 'u frame_v1 \<Rightarrow> bytes" where
  "frame_bytes U (Auth k i) =
     AUTH_TYPE # u16_to_be (of_nat (2 + length (auth_key_to_str k) + length (ingress_id_to_str i)))
     @ of_nat (length (auth_key_to_str k)) # auth_key_to_str k
     @ of_nat (length (ingress_id_to_str i)) # ingress_id_to_str i"
| "frame_bytes U (Authenticated u s) =
     AUTHENTICATED_TYPE # u16_to_be (of_nat (17 + length (server_id_to_str s)))
     @ of_nat (length (server_id_to_str s)) # server_id_to_str s @ uuid_as_bytes U u"
| "frame_bytes U Ping = [PING_TYPE]"
| "frame_bytes U Pong = [PONG_TYPE]"

fun decode_panics :: "bytes \<Rightarrow> bool" where
  "decode_panics [] = False"
| "decode_panics [t] = (t = AUTH_TYPE \<or> t = AUTHENTICATED_TYPE)"
| "decode_panics [t, a] = (t = AUTH_TYPE \<or> t = AUTHENTICATED_TYPE)"
| "decode_panics (t # a # b # body) =
     (unat (u16_from_be a b) \<le> length body \<and>
      (if t = AUTH_TYPE then
         (case body of [] \<Rightarrow> True | n # r \<Rightarrow>
            (case drop (unat n) r of [] \<Rightarrow> True | m # r' \<Rightarrow> length r' < unat m))
       else if t = AUTHENTICATED_TYPE then
         (case body of [] \<Rightarrow> True | n # r \<Rightarrow> length r < unat n + 16)
       else False))"

fun encode_all :: "('f \<Rightarrow> bytes \<Rightarrow> (bytes, error) result) \<Rightarrow> 'f list \<Rightarrow> bytes \<Rightarrow> (bytes, error) result" where
  "encode_all enc [] dst = Ok dst"
| "encode_all enc (f # fs) dst = and_then (enc f dst) (encode_all enc fs)"

fun decode_all :: "(bytes \<Rightarrow> ('f option \<times> bytes, error) result) \<Rightarrow> nat \<Rightarrow> bytes \<Rightarrow>
    ('f list \<times> bytes, error) result" where
  "decode_all dec 0 src = Ok ([], src)"
| "decode_all dec (Suc n) src =
     and_then (dec src) (\<lambda>(f, src). case f of
       None \<Rightarrow> Ok ([], src)
     | Some f \<Rightarrow> and_then (decode_all dec n src) (\<lambda>(fs, src). Ok (f # fs, src)))"

fun datagram_header :: "socket_addr \<Rightarrow> bytes" where
  "datagram_header (SocketAddrV4 octets port) = UDP_IPV4_ORIGIN # octets @ u16_to_be port"
| "datagram_header (SocketAddrV6 octets port flowinfo scope_id) = UDP_IPV6_ORIGIN # octets @ u16_to_be port"

fun origin_of :: "socket_addr \<Rightarrow> socket_addr" where
  "origin_of (SocketAddrV4 octets port) = SocketAddrV4 octets port"
| "origin_of (SocketAddrV6 octets port flowinfo scope_id) = SocketAddrV6 octets port 0 0"

fun extract_panics :: "bytes \<Rightarrow> bool" where
  "extract_panics [] = True"
| "extract_panics (tag # body) =
     (if tag = UDP_IPV4_ORIGIN then length body < 6
      else if tag = UDP_IPV6_ORIGIN then length body < 18
      else False)"

text \<open>A concrete pair of crates: byte lists, and ids that are their 16 bytes.\<close>

definition list_bytes :: bytes_crate where
  "list_bytes = \<lparr>
     put_u8 = (\<lambda>d x. d @ [x]),
     put_u16 = (\<lambda>d x. d @ u16_to_be x),
     put_slice = (\<lambda>d xs. d @ xs),
     get_u8 = (\<lambda>s. case s of [] \<Rightarrow> None | x # r \<Rightarrow> Some (x, r)),
     get_u16 = (\<lambda>s. case s of x # y # r \<Rightarrow> Some (u16_from_be x y, r) | _ \<Rightarrow> None),
     copy_to_slice = (\<lambda>s n. if n \<le> length s then Some (take n s, drop n s) else None),
     advance = (\<lambda>s n. if n \<le> length s then Some (drop n s) else None),
     split_to = (\<lambda>s n. if n \<le> length s then Some (take n s, drop n s) else None)\<rparr>"

typedef uuid16 = "{bs :: bytes. length bs = 16}"
  by (rule exI [of _ "replicate 16 0"]) simp

definition uuid16_crate :: "uuid16 uuid_crate" where
  "uuid16_crate = \<lparr>
     uuid_as_bytes = Rep_uuid16,
     uuid_from_slice = (\<lambda>bs. if length bs = 16 then Some (Abs_uuid16 bs) else None)\<rparr>"

lemma list_bytes_contract [simp]: "bytes_contract list_bytes"
  by (simp add: bytes_contract_def list_bytes_def)

lemma uuid16_contract [simp]: "uuid_contract uuid16_crate"
  using Rep_uuid16
  by (auto simp: uuid_contract_def uuid16_crate_def Rep_uuid16_inverse Abs_uuid16_inverse)

section \<open>The codec\<close>

subsection \<open>Encoding\<close>

lemma encode_frame_bytes:
  "bytes_contract B \<Longrightarrow> encode B U f dst = Ok (dst @ frame_bytes U f)"
  by (cases f) (simp_all add: crate_laws Let_def add_ac)

lemma frame_ok_length:
  "frame_ok (Auth k i) \<Longrightarrow> length (auth_key_to_str k) < 256 \<and> length (ingress_id_to_str i) < 256"
  "frame_ok (Authenticated u s) \<Longrightarrow> length (server_id_to_str s) < 256"
  by (auto intro: auth_key.wf_length ingress_id.wf_length server_id.wf_length)

lemma header_length:
  "n < 65536 \<Longrightarrow> u16_to_be (of_nat n) = [of_nat (n div 256), of_nat (n mod 256)]"
  by (simp add: u16_to_be_def unat_of_nat_u16)

lemma unat_header:
  assumes "n < 65536"
  shows "unat (u16_from_be (of_nat (n div 256)) (of_nat (n mod 256))) = n"
proof -
  have "n div 256 < 256" using assms by (simp add: less_mult_imp_div_less)
  then show ?thesis by (simp add: unat_of_nat_u8)
qed

subsection \<open>Decoding what was encoded\<close>

lemma decode_auth_frame:
  assumes B: "bytes_contract B" and ok: "frame_ok (Auth k i)"
  shows "decode_auth B (frame_bytes U (Auth k i) @ rest) = Ok (Some (Auth k i), rest)"
proof -
  let ?k = "auth_key_to_str k" and ?i = "ingress_id_to_str i"
  let ?n = "2 + length ?k + length ?i"
  have lens: "length ?k < 256" "length ?i < 256" using frame_ok_length(1) [OF ok] by auto
  then have n: "?n < 65536" by simp
  have p: "auth_key_from_bytes ?k = Ok k" "ingress_id_from_bytes ?i = Ok i"
    using ok by (simp_all add: auth_key.parse_text ingress_id.parse_text)
  show ?thesis
    using lens p unat_header [OF n]
    by (simp only: frame_bytes.simps header_length [OF n])
       (simp add: decode_auth_def Let_def B crate_laws unat_of_nat_u8)
qed

lemma decode_authenticated_frame:
  assumes B: "bytes_contract B" and U: "uuid_contract U" and ok: "frame_ok (Authenticated u s)"
  shows "decode_authenticated B U (frame_bytes U (Authenticated u s) @ rest) =
    Ok (Some (Authenticated u s), rest)"
proof -
  let ?s = "server_id_to_str s"
  let ?n = "17 + length ?s"
  have len: "length ?s < 256" using frame_ok_length(2) [OF ok] .
  then have n: "?n < 65536" by simp
  have p: "server_id_from_bytes ?s = Ok s" using ok by (simp add: server_id.parse_text)
  show ?thesis
    using len p unat_header [OF n]
    by (simp only: frame_bytes.simps header_length [OF n])
       (simp add: decode_authenticated_def Let_def B U crate_laws unat_of_nat_u8)
qed

lemma frame_bytes_hd:
  "frame_bytes U f \<noteq> []"
  "hd (frame_bytes U f) = (case f of Auth _ _ \<Rightarrow> AUTH_TYPE | Authenticated _ _ \<Rightarrow> AUTHENTICATED_TYPE
     | Ping \<Rightarrow> PING_TYPE | Pong \<Rightarrow> PONG_TYPE)"
  by (cases f; simp)+

lemma decode_frame:
  assumes B: "bytes_contract B" and U: "uuid_contract U" and ok: "frame_ok f"
  shows "decode B U (frame_bytes U f @ rest) = Ok (Some f, rest)"
proof (cases f)
  case (Auth k i)
  with ok show ?thesis using decode_auth_frame [OF B, of k i U rest]
    by (simp add: decode_def type_defs)
next
  case (Authenticated u s)
  with ok show ?thesis using decode_authenticated_frame [OF B U, of u s rest]
    by (simp add: decode_def type_defs)
qed (simp_all add: decode_def type_defs B crate_laws)

lemma frame_bytes_prefix_header:
  assumes "frame_ok f" and "p @ q = frame_bytes U f" and "3 \<le> length p"
    and "f \<noteq> Ping" and "f \<noteq> Pong" and U: "uuid_contract U"
  shows "3 + unat (u16_from_be (p ! 1) (p ! 2)) = length p + length q"
proof -
  from assms(3) obtain a b c r where p: "p = a # b # c # r"
    by (metis Suc_le_length_iff numeral_3_eq_3)
  show ?thesis
  proof (cases f)
    case (Auth k i)
    let ?n = "2 + length (auth_key_to_str k) + length (ingress_id_to_str i)"
    from assms(1) Auth have n: "?n < 65536" using frame_ok_length(1) [of k i] by force
    have "length (p @ q) = 3 + ?n" using assms(2) Auth by simp
    moreover have "b = of_nat (?n div 256)" "c = of_nat (?n mod 256)"
      using assms(2) Auth p by (simp_all only: frame_bytes.simps header_length [OF n]) simp_all
    ultimately show ?thesis using p unat_header [OF n] by simp
  next
    case (Authenticated u s)
    let ?n = "17 + length (server_id_to_str s)"
    from assms(1) Authenticated have n: "?n < 65536" using frame_ok_length(2) [of u s] by force
    have "length (p @ q) = 3 + ?n" using assms(2) Authenticated by (simp add: crate_laws U)
    moreover have "b = of_nat (?n div 256)" "c = of_nat (?n mod 256)"
      using assms(2) Authenticated p by (simp_all only: frame_bytes.simps header_length [OF n]) simp_all
    ultimately show ?thesis using p unat_header [OF n] by simp
  qed (use assms in auto)
qed

lemma decode_prefix:
  assumes B: "bytes_contract B" and U: "uuid_contract U" and ok: "frame_ok f"
    and p: "p @ q = frame_bytes U f" and q: "q \<noteq> []"
  shows "decode B U p = (if length p = 1 \<or> length p = 2 then Panic else Ok (None, p))"
proof (cases "p = []")
  case True
  then show ?thesis by (simp add: decode_def)
next
  case False
  then have hd: "p ! 0 = hd (frame_bytes U f)" using p by (metis hd_append2 hd_conv_nth)
  have pp: "f \<noteq> Ping" "f \<noteq> Pong" using p q False by (auto simp: append_eq_Cons_conv)
  show ?thesis
  proof (cases "length p < 3")
    case True
    moreover have "0 < length p" using False by simp
    ultimately have l: "length p = 1 \<or> length p = 2" by linarith
    then have "index p 1 = Panic \<or> (\<exists>x. index p 1 = Ok x) \<and> index p 2 = Panic"
      by (auto simp: index_def)
    with l hd pp False show ?thesis
      by (cases f) (auto simp: decode_def decode_auth_def decode_authenticated_def frame_bytes_hd type_defs)
  next
    case F: False
    then have "3 + unat (u16_from_be (p ! 1) (p ! 2)) = length p + length q"
      using frame_bytes_prefix_header [OF ok p _ pp U] by simp
    with q have "length p < 3 + unat (u16_from_be (p ! 1) (p ! 2))" by (cases q) auto
    with hd pp F False show ?thesis
      by (cases f) (auto simp: decode_def decode_auth_def decode_authenticated_def Let_def
          frame_bytes_hd type_defs)
  qed
qed

subsection \<open>Decoding arbitrary bytes\<close>

lemma decode_auth_body:
  assumes B: "bytes_contract B"
  shows "decode_auth B (t # a # b # body) =
    (if length body < unat (u16_from_be a b) then Ok (None, t # a # b # body)
     else case body of [] \<Rightarrow> Panic | n # r \<Rightarrow>
       if length r < unat n then Panic
       else case drop (unat n) r of [] \<Rightarrow> Panic | m # r' \<Rightarrow>
         if length r' < unat m then Panic
         else and_then (auth_key_from_bytes (take (unat n) r)) (\<lambda>k.
           and_then (ingress_id_from_bytes (take (unat m) r')) (\<lambda>i.
             Ok (Some (Auth k i), drop (unat m) r'))))"
  by (auto simp: decode_auth_def Let_def B crate_laws not_less split: list.split)

lemma decode_authenticated_body:
  assumes B: "bytes_contract B"
  shows "decode_authenticated B U (t # a # b # body) =
    (if length body < unat (u16_from_be a b) then Ok (None, t # a # b # body)
     else case body of [] \<Rightarrow> Panic | n # r \<Rightarrow>
       if length r < unat n + 16 then Panic
       else and_then (server_id_from_bytes (take (unat n) r)) (\<lambda>s.
         and_then (case uuid_from_slice U (take 16 (drop (unat n) r)) of
             Some u \<Rightarrow> Ok u | None \<Rightarrow> Err (from_uuid_error ''invalid length'')) (\<lambda>u.
           Ok (Some (Authenticated u s), drop (unat n + 16) r))))"
  by (auto simp: decode_authenticated_def Let_def B crate_laws not_less add.commute split: list.split)

lemma decode_panic_iff:
  assumes B: "bytes_contract B"
  shows "decode B U src = Panic \<longleftrightarrow> decode_panics src"
proof (cases src rule: decode_panics.cases)
  case (4 t a b body)
  show ?thesis
    unfolding 4 by (auto simp: decode_def decode_auth_body [OF B] decode_authenticated_body [OF B]
      and_then_iffs auth_key.parse_no_panic ingress_id.parse_no_panic server_id.parse_no_panic
      B crate_laws type_defs split: list.split option.split)
qed (simp_all add: decode_def decode_auth_def decode_authenticated_def type_defs B crate_laws)

lemma decode_Some:
  assumes B: "bytes_contract B" and U: "uuid_contract U" and d: "decode B U src = Ok (Some f, r)"
  shows "frame_ok f \<and> length r < length src"
proof (cases src rule: decode_panics.cases)
  case (4 t a b body)
  show ?thesis using d
    unfolding 4 by (auto simp: decode_def decode_auth_body [OF B] decode_authenticated_body [OF B]
      and_then_iffs auth_key.parse_eq_Ok ingress_id.parse_eq_Ok server_id.parse_eq_Ok
      B crate_laws type_defs split: list.splits option.splits if_splits
      dest!: drop_Cons_length)
qed (use d in \<open>auto simp: decode_def decode_auth_def decode_authenticated_def type_defs B crate_laws split: if_splits\<close>)

subsection \<open>Streams of frames\<close>

text \<open>
  What the protocol handlers rely on: encoding appends a frame's bytes to the buffer,
  decoding takes exactly them off its front. The crates are an argument of the operations.
\<close>

locale stream_codec =
  fixes lib_ok :: "'l \<Rightarrow> bool"
    and enc :: "'l \<Rightarrow> 'f \<Rightarrow> bytes \<Rightarrow> (bytes, error) result"
    and dec :: "'l \<Rightarrow> bytes \<Rightarrow> ('f option \<times> bytes, error) result"
    and item_ok :: "'f \<Rightarrow> bool"
    and item_bytes :: "'l \<Rightarrow> 'f \<Rightarrow> bytes"
  assumes enc_appends: "lib_ok L \<Longrightarrow> enc L f dst = Ok (dst @ item_bytes L f)"
    and dec_item: "lib_ok L \<Longrightarrow> item_ok f \<Longrightarrow> dec L (item_bytes L f @ rest) = Ok (Some f, rest)"
begin

lemma encode_all_appends:
  "lib_ok L \<Longrightarrow> encode_all (enc L) fs dst = Ok (dst @ concat (map (item_bytes L) fs))"
  by (induction fs arbitrary: dst) (simp_all add: enc_appends)

lemma decode_all_items:
  "lib_ok L \<Longrightarrow> list_all item_ok fs \<Longrightarrow>
     decode_all (dec L) (length fs) (concat (map (item_bytes L) fs) @ rest) = Ok (fs, rest)"
  by (induction fs) (simp_all add: dec_item)

lemma item_bytes_prefix_free:
  assumes "lib_ok L" "item_ok f" "item_ok g" "item_bytes L f @ r = item_bytes L g @ s"
  shows "f = g \<and> r = s"
proof -
  have "dec L (item_bytes L g @ s) = Ok (Some f, r)"
    using dec_item [OF assms(1,2), of r] unfolding assms(4) .
  then show ?thesis using dec_item [OF assms(1,3), of s] by simp
qed

end

interpretation codec_v1: stream_codec
  "\<lambda>(B, U). bytes_contract B \<and> uuid_contract U" "\<lambda>(B, U). encode B U" "\<lambda>(B, U). decode B U"
  frame_ok "\<lambda>(B, U). frame_bytes U"
  by unfold_locales (auto simp: encode_frame_bytes decode_frame)

section \<open>Datagrams\<close>

lemma to_datagram_eq:
  assumes "bytes_contract B"
  shows "to_datagram B a data n =
    (if n \<le> length data then Ok (datagram_header a @ take n data) else Panic)"
  using assms by (cases a) (simp_all add: crate_laws Let_def)

lemma extract_header:
  assumes "bytes_contract B" and "socket_addr_ok a"
  shows "extract_origin_socket_addr_from_datagram B (datagram_header a @ payload) =
    Ok (Some (origin_of a), payload)"
  using assms by (cases a)
    (simp_all add: extract_origin_socket_addr_from_datagram_def crate_laws origin_defs u16_to_be_def)

lemma extract_panic_iff:
  assumes B: "bytes_contract B"
  shows "extract_origin_socket_addr_from_datagram B bs = Panic \<longleftrightarrow> extract_panics bs"
proof -
  have two: "(case xs of x # y # r \<Rightarrow> Some (u16_from_be x y, r) | _ \<Rightarrow> None) = None \<longleftrightarrow> length xs < 2"
    for xs :: bytes
    by (auto split: list.split)
  show ?thesis
    by (cases bs) (auto simp: extract_origin_socket_addr_from_datagram_def B crate_laws origin_defs
        and_then_iffs two split: prod.splits if_splits)
qed


lemma extract_Some_ok:
  assumes B: "bytes_contract B" and e: "extract_origin_socket_addr_from_datagram B bs = Ok (Some a, r)"
  shows "socket_addr_ok a \<and> origin_of a = a \<and> bs = datagram_header a @ r"
proof -
  have split: "take n xs @ x # y # ys = xs" if "drop n xs = x # y # ys" for n x y and xs ys :: bytes
    using that by (metis append_take_drop_id)
  show ?thesis using e
    by (cases bs) (auto simp: extract_origin_socket_addr_from_datagram_def B crate_laws origin_defs
        and_then_iffs dest: split split: prod.splits if_splits list.splits)
qed

section \<open>Properties\<close>

lemma unknown_type_decode:
  assumes "src \<noteq> []" and "hd src \<notin> {AUTH_TYPE, AUTHENTICATED_TYPE, PING_TYPE, PONG_TYPE}"
  shows "decode B U (src @ further) = Ok (None, src @ further)"
  using assms by (cases src) (simp_all add: decode_def)

text \<open>
  C5. Frames written one after another into an empty buffer are decoded back, in order,
  and what follows them in the buffer is left untouched.
\<close>

theorem frame_stream_roundtrip:
  assumes "bytes_contract B" and "uuid_contract U" and "list_all frame_ok fs"
  shows "\<exists>bs. encode_all (encode B U) fs [] = Ok bs \<and>
    decode_all (decode B U) (length fs) (bs @ rest) = Ok (fs, rest)"
  using codec_v1.encode_all_appends [of "(B, U)" fs "[]"]
    codec_v1.decode_all_items [of "(B, U)" fs rest] assms by simp

theorem frame_stream_roundtrip_witness:
  "\<exists>bs. encode_all (encode list_bytes uuid16_crate)
      [Auth (AuthKey [107]) (IngressId [105]), Ping, Authenticated (Abs_uuid16 (replicate 16 7)) (ServerId [115])] []
      = Ok bs \<and>
    decode_all (decode list_bytes uuid16_crate) 3 (bs @ [4]) =
      Ok ([Auth (AuthKey [107]) (IngressId [105]), Ping,
        Authenticated (Abs_uuid16 (replicate 16 7)) (ServerId [115])], [4])"
  using frame_stream_roundtrip [of list_bytes uuid16_crate
    "[Auth (AuthKey [107]) (IngressId [105]), Ping, Authenticated (Abs_uuid16 (replicate 16 7)) (ServerId [115])]"
    "[4]"]
  by (simp add: id_text_ok_def numeral_3_eq_3)

text \<open>
  A frame that has arrived only in part: with at least the three header bytes (or with
  nothing) the decoder waits and keeps the buffer; with one or two bytes of an auth or
  authenticated frame it indexes past the end of the buffer and panics.
\<close>

lemma decode_partial_frame:
  assumes "bytes_contract B" and "uuid_contract U" and "frame_ok f"
    and "encode B U f [] = Ok (p @ q)" and "q \<noteq> []"
  shows "decode B U p = (if length p = 1 \<or> length p = 2 then Panic else Ok (None, p))"
  using decode_prefix [of B U f p q] assms by (simp add: encode_frame_bytes)

text \<open>
  C12. The inputs on which the decoder panics are exactly those of \<open>decode_panics\<close>: a
  header cut after one or two bytes, or a payload whose inner length bytes reach past the
  end of the buffer. Every other input yields a frame, an error or a request for more.
\<close>

theorem decode_panics_exactly:
  assumes "bytes_contract B"
  shows "decode B U src = Panic \<longleftrightarrow> decode_panics src"
  using assms by (rule decode_panic_iff)

theorem decode_panics_exactly_witness:
  "decode list_bytes uuid16_crate [0, 0, 0] = Panic \<and> decode list_bytes uuid16_crate [3] \<noteq> Panic"
  using decode_panics_exactly [OF list_bytes_contract, of uuid16_crate "[0, 0, 0]"]
    decode_panics_exactly [OF list_bytes_contract, of uuid16_crate "[3]"]
  by (simp add: type_defs)

text \<open>
  Whatever the peer sends, a frame that the decoder delivers carries identifiers that
  satisfy their type invariants, and at least one byte was consumed for it.
\<close>

lemma decode_delivers_ok_frames:
  assumes "bytes_contract B" and "uuid_contract U" and "decode B U src = Ok (Some f, rest)"
  shows "frame_ok f \<and> length rest < length src"
  using assms by (rule decode_Some)

lemma decode_delivers_ok_frames_witness:
  "decode list_bytes uuid16_crate [4, 9] = Ok (Some Pong, [9]) \<and>
   frame_ok (Pong :: uuid16 frame_v1) \<and> length [9 :: u8] < length [4, 9 :: u8]"
proof -
  have "decode list_bytes uuid16_crate [4, 9] = Ok (Some Pong, [9])"
    by (simp add: decode_def type_defs crate_laws)
  then show ?thesis
    using decode_delivers_ok_frames [OF list_bytes_contract uuid16_contract, of "[4, 9]" Pong "[9]"]
    by simp
qed

text \<open>
  A buffer whose first byte is no known frame type is never consumed, however much
  more arrives: the stream makes no further progress.
\<close>

lemma decode_unknown_type_stalls:
  assumes "src \<noteq> []" and "hd src \<notin> {AUTH_TYPE, AUTHENTICATED_TYPE, PING_TYPE, PONG_TYPE}"
  shows "decode B U (src @ further) = Ok (None, src @ further)"
  using assms by (rule unknown_type_decode)

lemma decode_unknown_type_stalls_witness:
  "decode list_bytes uuid16_crate ([2] @ [3, 3]) = Ok (None, [2] @ [3, 3])"
  using decode_unknown_type_stalls [of "[2]" list_bytes uuid16_crate "[3, 3]"]
  by (simp add: type_defs)

text \<open>
  The origin address and the payload of a UDP datagram survive the tunnel: reading the
  header gives back the address (an IPv6 flow label and scope are replaced by 0) and leaves
  exactly the first \<open>n\<close> bytes of the receive buffer.
\<close>

lemma datagram_roundtrip:
  assumes "bytes_contract B" and "socket_addr_ok a" and "n \<le> length data"
  shows "and_then (to_datagram B a data n) (extract_origin_socket_addr_from_datagram B) =
    Ok (Some (origin_of a), take n data)"
  using assms by (simp add: to_datagram_eq extract_header)

lemma datagram_roundtrip_witness:
  "and_then (to_datagram list_bytes (SocketAddrV4 [127, 0, 0, 1] 8080) [1, 2, 3, 0, 0] 3)
      (extract_origin_socket_addr_from_datagram list_bytes) =
    Ok (Some (SocketAddrV4 [127, 0, 0, 1] 8080), [1, 2, 3])"
  using datagram_roundtrip [OF list_bytes_contract,
    of "SocketAddrV4 [127, 0, 0, 1] 8080" 3 "[1, 2, 3, 0, 0]"] by simp

text \<open>
  C39. Reading a datagram's header panics exactly on the datagrams that are too short for
  it: empty, an IPv4 tag with fewer than 6 further bytes, an IPv6 tag with fewer than 18.
  A header that is read is the one \<open>to_datagram\<close> writes for the address returned.
\<close>

theorem extract_panics_exactly:
  assumes "bytes_contract B"
  shows "(extract_origin_socket_addr_from_datagram B bs = Panic \<longleftrightarrow> extract_panics bs) \<and>
    (extract_origin_socket_addr_from_datagram B bs = Ok (Some a, payload) \<longrightarrow>
       socket_addr_ok a \<and> to_datagram B a payload (length payload) = Ok bs)"
  using extract_panic_iff [OF assms, of bs] extract_Some_ok [OF assms, of bs a payload]
  by (simp add: to_datagram_eq [OF assms])

theorem extract_panics_exactly_witness:
  "extract_origin_socket_addr_from_datagram list_bytes [] = Panic \<and>
   extract_origin_socket_addr_from_datagram list_bytes [0, 10, 0, 0, 1, 0, 53, 9] =
     Ok (Some (SocketAddrV4 [10, 0, 0, 1] 53), [9]) \<and>
   to_datagram list_bytes (SocketAddrV4 [10, 0, 0, 1] 53) [9] 1 = Ok [0, 10, 0, 0, 1, 0, 53, 9]"
proof -
  have "extract_origin_socket_addr_from_datagram list_bytes [0, 10, 0, 0, 1, 0, 53, 9] =
      Ok (Some (SocketAddrV4 [10, 0, 0, 1] 53), [9])"
    by (simp add: extract_origin_socket_addr_from_datagram_def crate_laws origin_defs u16_from_be_def)
  then show ?thesis
    using extract_panics_exactly [OF list_bytes_contract, of "[]" "SocketAddrV4 [10, 0, 0, 1] 53" "[9]"]
      extract_panics_exactly [OF list_bytes_contract,
        of "[0, 10, 0, 0, 1, 0, 53, 9]" "SocketAddrV4 [10, 0, 0, 1] 53" "[9]"]
    by simp
qed

end
