(* ===== verification/Config.thy ===== *)
theory Config
  imports Identifiers Frames_V1
begin

text \<open>
  The configuration of the command line program: \<^verbatim>\<open>siffleux_config.rs\<close> (what the program runs
  on), \<^verbatim>\<open>toml_config.rs\<close> and \<^verbatim>\<open>cli.rs\<close> (what the user writes) and the conversions between them.
  Ids and keys the user leaves out are generated from random bytes encoded in base64
  (\<^verbatim>\<open>utils.rs\<close>); the random source and the encoder are third-party code and parameters, and
  the number of calls made to the source so far is the state of the conversions. Parsing the
  command line and the TOML text is left to the libraries: the records are what they yield.
\<close>

section \<open>The configuration\<close>

datatype ip_addr = IpV4 bytes | IpV6 bytes

fun socket_addr_new :: "ip_addr \<Rightarrow> u16 \<Rightarrow> socket_addr" where
  "socket_addr_new (IpV4 octets) port = SocketAddrV4 octets port"
| "socket_addr_new (IpV6 octets) port = SocketAddrV6 octets port 0 0"

definition DEFAULT_SERVER_IP :: ip_addr where "DEFAULT_SERVER_IP = IpV4 [0, 0, 0, 0]"
definition DEFAULT_SERVER_PORT :: u16 where "DEFAULT_SERVER_PORT = 8765"
definition DEFAULT_SERVER_TLS_SUBJECT_ALT_NAME :: rust_str where
  "DEFAULT_SERVER_TLS_SUBJECT_ALT_NAME = str_lit ''self-host.siffleux.dev''"
definition DEFAULT_SERVER_TLS_CERTIFICATE_FILE :: rust_str where
  "DEFAULT_SERVER_TLS_CERTIFICATE_FILE = str_lit ''siffleux-cert.pem''"
definition DEFAULT_SERVER_TLS_PRIVATE_KEY_FILE :: rust_str where
  "DEFAULT_SERVER_TLS_PRIVATE_KEY_FILE = str_lit ''siffleux-key.pem''"
definition DEFAULT_INGRESS_IP :: ip_addr where "DEFAULT_INGRESS_IP = IpV4 [0, 0, 0, 0]"

record tls_config =
  cert_pem_path :: rust_str
  key_pem_path :: rust_str
  cert_subject_alt_name :: rust_str

record server_config =
  sc_id :: server_id
  sc_client_addr :: socket_addr
  sc_tls :: tls_config

record tcp_ingress_config =
  tic_addr :: socket_addr
  tic_id :: ingress_id
  tic_auth_key :: auth_key

record udp_ingress_config =
  uic_addr :: socket_addr
  uic_id :: ingress_id
  uic_auth_key :: auth_key

datatype ingress_config = IngressTCP tcp_ingress_config | IngressUDP udp_ingress_config

record authentication_config =
  ac_server :: rust_str
  ac_cert_hash :: rust_str
  ac_cert_subject_alt_name :: rust_str

record tcp_egress_config =
  tec_authentication :: authentication_config
  tec_id :: egress_id
  tec_ingress_id :: ingress_id
  tec_auth_key :: auth_key
  tec_target :: rust_str

record udp_egress_config =
  uec_authentication :: authentication_config
  uec_id :: egress_id
  uec_ingress_id :: ingress_id
  uec_auth_key :: auth_key
  uec_target :: rust_str

datatype egress_config = EgressTCP tcp_egress_config | EgressUDP udp_egress_config

section \<open>What the user writes\<close>

subsection \<open>Files\<close>

record tls_toml =
  tt_cert_pem_path :: rust_str
  tt_key_pem_path :: rust_str
  tt_cert_subject_alt_name :: "rust_str option"

record tcp_ingress_toml =
  tit_ip :: "ip_addr option"
  tit_port :: u16
  tit_id :: "ingress_id option"
  tit_auth_key :: auth_key

record udp_ingress_toml =
  uit_ip :: "ip_addr option"
  uit_port :: u16
  uit_id :: "ingress_id option"
  uit_auth_key :: auth_key

record server_toml =
  st_id :: "server_id option"
  st_ip :: "ip_addr option"
  st_port :: "u16 option"
  st_tls :: "tls_toml option"
  st_tcp_ingress :: "tcp_ingress_toml list"
  st_udp_ingress :: "udp_ingress_toml list"

record authentication_toml =
  at_address :: rust_str
  at_cert_hash :: rust_str
  at_cert_subject_alt_name :: "rust_str option"

record tcp_egress_toml =
  tet_server :: "authentication_toml option"
  tet_id :: "egress_id option"
  tet_ingress_id :: ingress_id
  tet_auth_key :: auth_key
  tet_target :: rust_str

record udp_egress_toml =
  uet_server :: "authentication_toml option"
  uet_id :: "egress_id option"
  uet_ingress_id :: ingress_id
  uet_auth_key :: auth_key
  uet_target :: rust_str

record client_toml =
  ct_server :: "authentication_toml option"
  ct_tcp_egress :: "tcp_egress_toml list"
  ct_udp_egress :: "udp_egress_toml list"

subsection \<open>Command line\<close>

record tls_args =
  ta_cert_pem_path :: rust_str
  ta_key_pem_path :: rust_str
  ta_cert_subject_alt_name :: rust_str

record server_args =
  sa_id :: "server_id option"
  sa_ip :: ip_addr
  sa_port :: u16
  sa_tls :: tls_args

record tcp_ingress_args =
  tia_ip :: ip_addr
  tia_port :: u16
  tia_id :: "ingress_id option"
  tia_auth_key :: "auth_key option"

record udp_ingress_args =
  uia_ip :: ip_addr
  uia_port :: u16
  uia_id :: "ingress_id option"
  uia_auth_key :: "auth_key option"

record authentication_args =
  aa_server :: rust_str
  aa_cert_hash :: rust_str
  aa_cert_subject_alt_name :: rust_str

record egress_args =
  ea_id :: "egress_id option"
  ea_ingress_id :: ingress_id
  ea_auth_key :: auth_key

record tcp_egress_args =
  tea_authentication_args :: authentication_args
  tea_egress_args :: egress_args
  tea_target :: rust_str

record udp_egress_args =
  uea_authentication_args :: authentication_args
  uea_egress_args :: egress_args
  uea_target :: rust_str

datatype ingress_command = TcpCommand tcp_ingress_args | UdpCommand udp_ingress_args
datatype egress_command = TcpEgressCommand tcp_egress_args | UdpEgressCommand udp_egress_args

record server_command =
  scmd_config :: "rust_str option"
  scmd_server_args :: server_args
  scmd_ingress :: "ingress_command option"

record client_command =
  ccmd_config :: "rust_str option"
  ccmd_egress :: "egress_command option"

datatype commands = ServerCommand server_command | ClientCommand client_command

record cli =
  cli_command :: commands
  cli_verbose :: bool

text \<open>
  The defaults that the attributes of the arguments declare: what an argument is when the
  user does not give it.
\<close>

definition given_or :: "'a \<Rightarrow> 'a option \<Rightarrow> 'a" where
  "given_or d x = (case x of Some v \<Rightarrow> v | None \<Rightarrow> d)"

definition tls_args_parsed :: "rust_str option \<Rightarrow> rust_str option \<Rightarrow> rust_str option \<Rightarrow> tls_args" where
  "tls_args_parsed cert key name =
     \<lparr>ta_cert_pem_path = given_or DEFAULT_SERVER_TLS_CERTIFICATE_FILE cert,
      ta_key_pem_path = given_or DEFAULT_SERVER_TLS_PRIVATE_KEY_FILE key,
      ta_cert_subject_alt_name = given_or DEFAULT_SERVER_TLS_SUBJECT_ALT_NAME name\<rparr>"

definition server_args_parsed ::
    "server_id option \<Rightarrow> ip_addr option \<Rightarrow> u16 option \<Rightarrow> tls_args \<Rightarrow> server_args" where
  "server_args_parsed i ip port tls =
     \<lparr>sa_id = i, sa_ip = given_or (IpV4 [0, 0, 0, 0]) ip, sa_port = given_or 8765 port, sa_tls = tls\<rparr>"

definition tcp_ingress_args_parsed ::
    "ip_addr option \<Rightarrow> u16 option \<Rightarrow> ingress_id option \<Rightarrow> auth_key option \<Rightarrow> tcp_ingress_args" where
  "tcp_ingress_args_parsed ip port i key =
     \<lparr>tia_ip = given_or (IpV4 [0, 0, 0, 0]) ip, tia_port = given_or 3000 port, tia_id = i, tia_auth_key = key\<rparr>"

definition udp_ingress_args_parsed ::
    "ip_addr option \<Rightarrow> u16 option \<Rightarrow> ingress_id option \<Rightarrow> auth_key option \<Rightarrow> udp_ingress_args" where
  "udp_ingress_args_parsed ip port i key =
     \<lparr>uia_ip = given_or (IpV4 [0, 0, 0, 0]) ip, uia_port = given_or 3000 port, uia_id = i, uia_auth_key = key\<rparr>"

definition authentication_args_parsed ::
    "rust_str \<Rightarrow> rust_str \<Rightarrow> rust_str option \<Rightarrow> authentication_args" where
  "authentication_args_parsed server cert_hash name =
     \<lparr>aa_server = server, aa_cert_hash = cert_hash,
      aa_cert_subject_alt_name = given_or DEFAULT_SERVER_TLS_SUBJECT_ALT_NAME name\<rparr>"

section \<open>Conversions that may consume random bytes\<close>

text \<open>The random source: the result of the \<open>n\<close>-th call asking for \<open>len\<close> bytes.\<close>

type_synonym rng = "nat \<Rightarrow> nat \<Rightarrow> (bytes, string) result"
type_synonym ('a, 'e) gen = "nat \<Rightarrow> ('a, 'e) result \<times> nat"

definition return_gen :: "'a \<Rightarrow> ('a, 'e) gen" where
  "return_gen x n = (Ok x, n)"

definition bind_gen :: "('a, 'e) gen \<Rightarrow> ('a \<Rightarrow> ('b, 'e) gen) \<Rightarrow> ('b, 'e) gen" where
  "bind_gen m f n = (case m n of (Ok x, n) \<Rightarrow> f x n | (Err e, n) \<Rightarrow> (Err e, n) | (Panic, n) \<Rightarrow> (Panic, n))"

definition lift_gen :: "('a, 'e) result \<Rightarrow> ('a, 'e) gen" where
  "lift_gen r n = (r, n)"

fun collect_gen :: "('a \<Rightarrow> ('b, 'e) gen) \<Rightarrow> 'a list \<Rightarrow> ('b list, 'e) gen" where
  "collect_gen f [] = return_gen []"
| "collect_gen f (x # xs) = bind_gen (f x) (\<lambda>y. bind_gen (collect_gen f xs) (\<lambda>ys. return_gen (y # ys)))"

definition generate_secure_random_key :: "(bytes \<Rightarrow> rust_str) \<Rightarrow> rng \<Rightarrow> nat \<Rightarrow> (rust_str, 'e) gen" where
  "generate_secure_random_key base64 random len n =
     (and_then (unwrap (random n len)) (\<lambda>bs. Ok (base64 bs)), n + 1)"

text \<open>\<^verbatim>\<open>value.unwrap_or_else(|| T::try_from(generate_secure_random_key::<L>()).unwrap())\<close>\<close>

definition or_generated ::
    "(bytes \<Rightarrow> rust_str) \<Rightarrow> rng \<Rightarrow> nat \<Rightarrow> (rust_str \<Rightarrow> ('i, error) result) \<Rightarrow> 'i option \<Rightarrow> ('i, 'e) gen" where
  "or_generated base64 random len try_from given = (case given of
     Some i \<Rightarrow> return_gen i
   | None \<Rightarrow> bind_gen (generate_secure_random_key base64 random len) (\<lambda>s. lift_gen (unwrap (try_from s))))"

subsection \<open>TOML, server side\<close>

definition tcp_ingress_toml_into :: "(bytes \<Rightarrow> rust_str) \<Rightarrow> rng \<Rightarrow> tcp_ingress_toml \<Rightarrow> (ingress_config, 'e) gen" where
  "tcp_ingress_toml_into base64 random t =
     (let ip = (case tit_ip t of Some ip \<Rightarrow> ip | None \<Rightarrow> DEFAULT_INGRESS_IP) in
      bind_gen (or_generated base64 random 16 ingress_id_try_from (tit_id t)) (\<lambda>i.
      return_gen (IngressTCP \<lparr>tic_addr = socket_addr_new ip (tit_port t), tic_id = i, tic_auth_key = tit_auth_key t\<rparr>)))"

definition udp_ingress_toml_into :: "(bytes \<Rightarrow> rust_str) \<Rightarrow> rng \<Rightarrow> udp_ingress_toml \<Rightarrow> (ingress_config, 'e) gen" where
  "udp_ingress_toml_into base64 random t =
     (let ip = (case uit_ip t of Some ip \<Rightarrow> ip | None \<Rightarrow> DEFAULT_INGRESS_IP) in
      bind_gen (or_generated base64 random 16 ingress_id_try_from (uit_id t)) (\<lambda>i.
      return_gen (IngressUDP \<lparr>uic_addr = socket_addr_new ip (uit_port t), uic_id = i, uic_auth_key = uit_auth_key t\<rparr>)))"

definition tls_of_toml :: "tls_toml option \<Rightarrow> tls_config" where
  "tls_of_toml t = (case t of
     None \<Rightarrow> \<lparr>cert_pem_path = DEFAULT_SERVER_TLS_CERTIFICATE_FILE,
       key_pem_path = DEFAULT_SERVER_TLS_PRIVATE_KEY_FILE,
       cert_subject_alt_name = DEFAULT_SERVER_TLS_SUBJECT_ALT_NAME\<rparr>
   | Some tls \<Rightarrow> \<lparr>cert_pem_path = tt_cert_pem_path tls, key_pem_path = tt_key_pem_path tls,
       cert_subject_alt_name = (case tt_cert_subject_alt_name tls of
          Some name \<Rightarrow> name | None \<Rightarrow> DEFAULT_SERVER_TLS_SUBJECT_ALT_NAME)\<rparr>)"

definition server_toml_into ::
    "(bytes \<Rightarrow> rust_str) \<Rightarrow> rng \<Rightarrow> server_toml \<Rightarrow> (server_config \<times> ingress_config list, 'e) gen" where
  "server_toml_into base64 random t =
     bind_gen (or_generated base64 random 16 server_id_try_from (st_id t)) (\<lambda>i.
     let ip = (case st_ip t of Some ip \<Rightarrow> ip | None \<Rightarrow> DEFAULT_SERVER_IP);
         port = (case st_port t of Some port \<Rightarrow> port | None \<Rightarrow> DEFAULT_SERVER_PORT) in
     bind_gen (collect_gen (tcp_ingress_toml_into base64 random) (st_tcp_ingress t)) (\<lambda>tcp.
     bind_gen (collect_gen (udp_ingress_toml_into base64 random) (st_udp_ingress t)) (\<lambda>udp.
     return_gen (\<lparr>sc_id = i, sc_client_addr = socket_addr_new ip port, sc_tls = tls_of_toml (st_tls t)\<rparr>,
       tcp @ udp))))"

subsection \<open>TOML, client side\<close>

definition authentication_toml_into :: "authentication_toml \<Rightarrow> authentication_config" where
  "authentication_toml_into t = \<lparr>ac_server = at_address t, ac_cert_hash = at_cert_hash t,
     ac_cert_subject_alt_name = (case at_cert_subject_alt_name t of
        Some name \<Rightarrow> name | None \<Rightarrow> DEFAULT_SERVER_TLS_SUBJECT_ALT_NAME)\<rparr>"

definition or_else :: "'a option \<Rightarrow> 'a option \<Rightarrow> 'a option" where
  "or_else x y = (case x of Some v \<Rightarrow> Some v | None \<Rightarrow> y)"

definition ok_or :: "'a option \<Rightarrow> 'e \<Rightarrow> ('a, 'e) result" where
  "ok_or x e = (case x of Some v \<Rightarrow> Ok v | None \<Rightarrow> Err e)"

definition no_server :: "string \<Rightarrow> ingress_id \<Rightarrow> rust_str" where
  "no_server kind i = str_lit kind @ str_lit '' egress ingress_id='' @ ingress_id_to_str i @
     str_lit '' doesn't a server to connect to.''"

definition tcp_egress_of_toml ::
    "(bytes \<Rightarrow> rust_str) \<Rightarrow> rng \<Rightarrow> authentication_toml option \<Rightarrow> tcp_egress_toml \<Rightarrow> (egress_config, rust_str) gen" where
  "tcp_egress_of_toml base64 random client_server t =
     bind_gen (or_generated base64 random 16 egress_id_try_from (tet_id t)) (\<lambda>i.
     bind_gen (lift_gen (ok_or (or_else (tet_server t) client_server) (no_server ''TCP'' (tet_ingress_id t)))) (\<lambda>server.
     return_gen (EgressTCP \<lparr>tec_authentication = authentication_toml_into server, tec_id = i,
       tec_ingress_id = tet_ingress_id t, tec_auth_key = tet_auth_key t, tec_target = tet_target t\<rparr>)))"

definition udp_egress_of_toml ::
    "(bytes \<Rightarrow> rust_str) \<Rightarrow> rng \<Rightarrow> authentication_toml option \<Rightarrow> udp_egress_toml \<Rightarrow> (egress_config, rust_str) gen" where
  "udp_egress_of_toml base64 random client_server t =
     bind_gen (or_generated base64 random 16 egress_id_try_from (uet_id t)) (\<lambda>i.
     bind_gen (lift_gen (ok_or (or_else (uet_server t) client_server) (no_server ''UDP'' (uet_ingress_id t)))) (\<lambda>server.
     return_gen (EgressUDP \<lparr>uec_authentication = authentication_toml_into server, uec_id = i,
       uec_ingress_id = uet_ingress_id t, uec_auth_key = uet_auth_key t, uec_target = uet_target t\<rparr>)))"

definition client_toml_try_from ::
    "(bytes \<Rightarrow> rust_str) \<Rightarrow> rng \<Rightarrow> client_toml \<Rightarrow> (egress_config list, rust_str) gen" where
  "client_toml_try_from base64 random t =
     bind_gen (collect_gen (tcp_egress_of_toml base64 random (ct_server t)) (ct_tcp_egress t)) (\<lambda>tcp.
     bind_gen (collect_gen (udp_egress_of_toml base64 random (ct_server t)) (ct_udp_egress t)) (\<lambda>udp.
     return_gen (tcp @ udp)))"

subsection \<open>From the command line\<close>

definition server_args_into :: "(bytes \<Rightarrow> rust_str) \<Rightarrow> rng \<Rightarrow> server_args \<Rightarrow> (server_config, 'e) gen" where
  "server_args_into base64 random a =
     bind_gen (or_generated base64 random 16 server_id_try_from (sa_id a)) (\<lambda>i.
     return_gen \<lparr>sc_id = i, sc_client_addr = socket_addr_new (sa_ip a) (sa_port a),
       sc_tls = \<lparr>cert_pem_path = ta_cert_pem_path (sa_tls a), key_pem_path = ta_key_pem_path (sa_tls a),
         cert_subject_alt_name = ta_cert_subject_alt_name (sa_tls a)\<rparr>\<rparr>)"

definition tcp_ingress_args_into :: "(bytes \<Rightarrow> rust_str) \<Rightarrow> rng \<Rightarrow> tcp_ingress_args \<Rightarrow> (ingress_config, 'e) gen" where
  "tcp_ingress_args_into base64 random a =
     bind_gen (or_generated base64 random 32 auth_key_try_from (tia_auth_key a)) (\<lambda>k.
     bind_gen (or_generated base64 random 16 ingress_id_try_from (tia_id a)) (\<lambda>i.
     return_gen (IngressTCP \<lparr>tic_addr = socket_addr_new (tia_ip a) (tia_port a), tic_id = i, tic_auth_key = k\<rparr>)))"

definition udp_ingress_args_into :: "(bytes \<Rightarrow> rust_str) \<Rightarrow> rng \<Rightarrow> udp_ingress_args \<Rightarrow> (ingress_config, 'e) gen" where
  "udp_ingress_args_into base64 random a =
     bind_gen (or_generated base64 random 32 auth_key_try_from (uia_auth_key a)) (\<lambda>k.
     bind_gen (or_generated base64 random 16 ingress_id_try_from (uia_id a)) (\<lambda>i.
     return_gen (IngressUDP \<lparr>uic_addr = socket_addr_new (uia_ip a) (uia_port a), uic_id = i, uic_auth_key = k\<rparr>)))"

definition authentication_args_into :: "authentication_args \<Rightarrow> authentication_config" where
  "authentication_args_into a =
     \<lparr>ac_server = aa_server a, ac_cert_hash = aa_cert_hash a, ac_cert_subject_alt_name = aa_cert_subject_alt_name a\<rparr>"

definition tcp_egress_args_into :: "(bytes \<Rightarrow> rust_str) \<Rightarrow> rng \<Rightarrow> tcp_egress_args \<Rightarrow> (egress_config, 'e) gen" where
  "tcp_egress_args_into base64 random a =
     bind_gen (or_generated base64 random 16 egress_id_try_from (ea_id (tea_egress_args a))) (\<lambda>i.
     return_gen (EgressTCP \<lparr>tec_authentication = authentication_args_into (tea_authentication_args a), tec_id = i,
       tec_ingress_id = ea_ingress_id (tea_egress_args a), tec_auth_key = ea_auth_key (tea_egress_args a),
       tec_target = tea_target a\<rparr>))"

definition udp_egress_args_into :: "(bytes \<Rightarrow> rust_str) \<Rightarrow> rng \<Rightarrow> udp_egress_args \<Rightarrow> (egress_config, 'e) gen" where
  "udp_egress_args_into base64 random a =
     bind_gen (or_generated base64 random 16 egress_id_try_from (ea_id (uea_egress_args a))) (\<lambda>i.
     return_gen (EgressUDP \<lparr>uec_authentication = authentication_args_into (uea_authentication_args a), uec_id = i,
       uec_ingress_id = ea_ingress_id (uea_egress_args a), uec_auth_key = ea_auth_key (uea_egress_args a),
       uec_target = uea_target a\<rparr>))"

section \<open>What the conversions yield\<close>

text \<open>
  What the program relies on: the encoder turns \<open>n\<close> bytes into the ASCII characters of padded
  base64, and the random source delivers as many bytes as it is asked for if it does not
  fail. \<open>rng_contract\<close> says in addition that it never fails.
\<close>

definition base64_contract :: "(bytes \<Rightarrow> rust_str) \<Rightarrow> bool" where
  "base64_contract base64 \<longleftrightarrow>
     (\<forall>bs. length (base64 bs) = 4 * ((length bs + 2) div 3) \<and> list_all (\<lambda>b. unat b < 128) (base64 bs))"

definition rng_contract :: "rng \<Rightarrow> bool" where
  "rng_contract random \<longleftrightarrow> (\<forall>n len. \<exists>bs. random n len = Ok bs \<and> length bs = len)"

definition rng_lengths :: "rng \<Rightarrow> bool" where
  "rng_lengths random \<longleftrightarrow> (\<forall>n len bs. random n len = Ok bs \<longrightarrow> length bs = len)"

definition rng_fails :: "rng \<Rightarrow> bool" where
  "rng_fails random \<longleftrightarrow> (\<exists>n. \<not> is_ok (random n 16))"

lemma rng_contract_lengths: "rng_contract random \<Longrightarrow> rng_lengths random \<and> \<not> rng_fails random"
  unfolding rng_contract_def rng_lengths_def rng_fails_def is_ok_iff by (metis result.inject(1))

text \<open>
  A conversion that is not refused ends well with a value as described, or panics, which it
  does only if \<open>panics\<close>.
\<close>

definition ends :: "('a, 'e) gen \<Rightarrow> bool \<Rightarrow> ('a \<Rightarrow> bool) \<Rightarrow> bool" where
  "ends m panics P \<longleftrightarrow> (\<forall>n. case fst (m n) of Ok x \<Rightarrow> P x | Err e \<Rightarrow> False | Panic \<Rightarrow> panics)"

lemma ends_return: "P x \<Longrightarrow> ends (return_gen x) panics P"
  by (simp add: ends_def return_gen_def)

lemma ends_mono: "ends m panics P \<Longrightarrow> (panics \<Longrightarrow> panics') \<Longrightarrow> (\<And>x. P x \<Longrightarrow> Q x) \<Longrightarrow> ends m panics' Q"
  by (fastforce simp: ends_def split: result.splits)

lemma ends_bind:
  assumes "ends m panics P" and "\<And>x. P x \<Longrightarrow> ends (f x) panics Q"
  shows "ends (bind_gen m f) panics Q"
  unfolding ends_def
proof
  fix n
  show "case fst (bind_gen m f n) of Ok x \<Rightarrow> Q x | Err e \<Rightarrow> False | Panic \<Rightarrow> panics"
  proof (cases "m n")
    case (Pair r k)
    with assms(1) have r: "case r of Ok x \<Rightarrow> P x | Err e \<Rightarrow> False | Panic \<Rightarrow> panics"
      unfolding ends_def by (metis fst_conv)
    show ?thesis
    proof (cases r)
      case (Ok x)
      with r assms(2) [of x] Pair show ?thesis by (simp add: bind_gen_def ends_def)
    qed (use r Pair in \<open>simp_all add: bind_gen_def\<close>)
  qed
qed

lemma ends_collect:
  "(\<And>x. x \<in> set xs \<Longrightarrow> ends (f x) panics (R x)) \<Longrightarrow> ends (collect_gen f xs) panics (list_all2 R xs)"
proof (induction xs)
  case Nil
  then show ?case by (simp add: ends_return)
next
  case (Cons x xs)
  have "ends (f x) panics (R x)" and "ends (collect_gen f xs) panics (list_all2 R xs)" using Cons by auto
  then show ?case by (auto intro!: ends_bind ends_return)
qed

definition yields :: "('a, 'e) gen \<Rightarrow> ('a \<Rightarrow> bool) \<Rightarrow> bool" where
  "yields m P \<longleftrightarrow> (\<forall>n. \<exists>x n'. m n = (Ok x, n') \<and> P x)"

lemma ends_yields: "ends m False P \<Longrightarrow> yields m P"
  unfolding yields_def
proof
  fix n
  assume "ends m False P"
  then have "case fst (m n) of Ok x \<Rightarrow> P x | Err e \<Rightarrow> False | Panic \<Rightarrow> False" by (simp add: ends_def)
  then show "\<exists>x n'. m n = (Ok x, n') \<and> P x" by (cases "m n") (auto split: result.splits)
qed

lemma yields_return: "P x \<Longrightarrow> yields (return_gen x) P"
  by (simp add: yields_def return_gen_def)

lemma yields_lift: "P x \<Longrightarrow> yields (lift_gen (Ok x)) P"
  by (simp add: yields_def lift_gen_def)

lemma yields_bind:
  assumes "yields m P" and "\<And>x. P x \<Longrightarrow> yields (f x) Q"
  shows "yields (bind_gen m f) Q"
  unfolding yields_def
proof
  fix n
  obtain x n' where x: "m n = (Ok x, n')" "P x" using assms(1) by (meson yields_def)
  obtain y n'' where "f x n' = (Ok y, n'')" "Q y" using assms(2) [OF x(2)] by (meson yields_def)
  with x show "\<exists>y n'. bind_gen m f n = (Ok y, n') \<and> Q y" by (simp add: bind_gen_def)
qed

lemma yields_collect:
  "(\<And>x. x \<in> set xs \<Longrightarrow> yields (f x) (R x)) \<Longrightarrow> yields (collect_gen f xs) (list_all2 R xs)"
proof (induction xs)
  case Nil
  then show ?case by (simp add: yields_return)
next
  case (Cons x xs)
  have "yields (f x) (R x)" and "yields (collect_gen f xs) (list_all2 R xs)" using Cons by auto
  then show ?case by (auto intro!: yields_bind yields_return)
qed

text \<open>A conversion that stops at the first element it refuses.\<close>

lemma collect_refused:
  assumes "\<And>x. x \<in> set xs \<Longrightarrow> \<not> bad x \<Longrightarrow> yields (f x) (R x)"
    and "\<And>x n. x \<in> set xs \<Longrightarrow> bad x \<Longrightarrow> fst (f x n) = Err (msg x)"
    and "find bad xs = Some y"
  shows "fst (collect_gen f xs n) = Err (msg y)"
  using assms
proof (induction xs arbitrary: n)
  case (Cons x xs)
  show ?case
  proof (cases "bad x")
    case True
    with Cons.prems have "y = x" "fst (f x n) = Err (msg x)" by auto
    then show ?thesis by (cases "f x n") (auto simp: bind_gen_def)
  next
    case False
    then have "yields (f x) (R x)" using Cons.prems(1) by simp
    then obtain z m where z: "f x n = (Ok z, m)" by (meson yields_def)
    have "fst (collect_gen f xs m) = Err (msg y)" using Cons False by auto
    with z show ?thesis by (cases "collect_gen f xs m") (auto simp: bind_gen_def)
  qed
qed simp

lemma bind_refused:
  "fst (m n) = Err e \<Longrightarrow> fst (bind_gen m f n) = Err e"
  by (cases "m n") (auto simp: bind_gen_def)

lemma bind_refused_later:
  assumes "yields m P" and "\<And>x n. P x \<Longrightarrow> fst (f x n) = Err e"
  shows "fst (bind_gen m f n) = Err e"
proof -
  obtain x n' where "m n = (Ok x, n')" "P x" using assms(1) by (meson yields_def)
  with assms(2) show ?thesis by (simp add: bind_gen_def)
qed

text \<open>A given id is kept; a generated one has the characters of 16 bytes in base64.\<close>

fun kept_or_generated :: "('i \<Rightarrow> rust_str) \<Rightarrow> 'i option \<Rightarrow> 'i \<Rightarrow> bool" where
  "kept_or_generated str_of (Some j) i \<longleftrightarrow> i = j"
| "kept_or_generated str_of None i \<longleftrightarrow> id_text_ok (str_of i) \<and> length (str_of i) = 24"

lemma key_ends:
  assumes b: "base64_contract base64" and r: "rng_lengths random"
  shows "ends (generate_secure_random_key base64 random 16) (rng_fails random) (\<lambda>s. length s = 24 \<and> id_text_ok s)"
  unfolding ends_def
proof
  fix n
  have fails: "rng_fails random" if "\<not> is_ok (random n 16)" using that by (auto simp: rng_fails_def)
  show "case fst (generate_secure_random_key base64 random 16 n) of
      Ok s \<Rightarrow> length s = 24 \<and> id_text_ok s | Err e \<Rightarrow> False | Panic \<Rightarrow> rng_fails random"
  proof (cases "random n 16")
    case (Ok bs)
    then have len: "length (base64 bs) = 24" using b r by (simp add: base64_contract_def rng_lengths_def)
    have "utf8_valid (base64 bs)"
      using b by (intro utf8_valid_ascii) (simp add: base64_contract_def list_all_iff)
    with len Ok show ?thesis by (auto simp: generate_secure_random_key_def id_text_ok_def)
  qed (use fails in \<open>auto simp: generate_secure_random_key_def is_ok_def\<close>)
qed

lemma generated_ends:
  assumes "base64_contract base64" and "rng_lengths random"
    and mk: "\<And>s. s \<noteq> [] \<Longrightarrow> length s \<le> 255 \<Longrightarrow> \<exists>i. try_from s = Ok i \<and> str_of i = s"
  shows "ends (or_generated base64 random 16 try_from given) (given = None \<and> rng_fails random)
    (kept_or_generated str_of given)"
proof (cases given)
  case (Some i)
  then show ?thesis by (simp add: or_generated_def ends_return)
next
  case None
  have "ends (lift_gen (unwrap (try_from s))) (rng_fails random) (kept_or_generated str_of None)"
    if s: "length s = 24 \<and> id_text_ok s" for s
  proof -
    obtain i where "try_from s = Ok i" "str_of i = s" using mk [of s] s by (auto simp: id_text_ok_def)
    then show ?thesis using s by (simp add: ends_def lift_gen_def)
  qed
  from ends_bind [OF key_ends [OF assms(1,2)] this] show ?thesis by (simp add: or_generated_def None)
qed

lemma generated_id:
  assumes "base64_contract base64" and "rng_contract random"
    and "\<And>s. s \<noteq> [] \<Longrightarrow> length s \<le> 255 \<Longrightarrow> \<exists>i. try_from s = Ok i \<and> str_of i = s"
  shows "yields (or_generated base64 random 16 try_from given) (kept_or_generated str_of given)"
  using generated_ends [where try_from = try_from and str_of = str_of, OF assms(1) _ assms(3), of random given]
    rng_contract_lengths [OF assms(2)]
  by (intro ends_yields) simp

lemmas generated_ids =
  generated_id [where try_from = server_id_try_from and str_of = server_id_to_str]
  generated_id [where try_from = ingress_id_try_from and str_of = ingress_id_to_str]
  generated_id [where try_from = egress_id_try_from and str_of = egress_id_to_str]

lemma try_from_ok:
  assumes "s \<noteq> []" and "length s \<le> 255"
  shows "\<exists>i. server_id_try_from s = Ok i \<and> server_id_to_str i = s"
    and "\<exists>i. ingress_id_try_from s = Ok i \<and> ingress_id_to_str i = s"
    and "\<exists>i. egress_id_try_from s = Ok i \<and> egress_id_to_str i = s"
  using assms
  by (simp_all add: server_id_try_from_def ingress_id_try_from_def egress_id_try_from_def
      server_id.mk_ok ingress_id.mk_ok egress_id.mk_ok)

text \<open>What an entry of the file becomes.\<close>

fun tcp_ingress_rel :: "tcp_ingress_toml \<Rightarrow> ingress_config \<Rightarrow> bool" where
  "tcp_ingress_rel t (IngressTCP c) \<longleftrightarrow>
     tic_addr c = socket_addr_new (case tit_ip t of Some ip \<Rightarrow> ip | None \<Rightarrow> IpV4 [0, 0, 0, 0]) (tit_port t) \<and>
     kept_or_generated ingress_id_to_str (tit_id t) (tic_id c) \<and> tic_auth_key c = tit_auth_key t"
| "tcp_ingress_rel t (IngressUDP c) \<longleftrightarrow> False"

fun udp_ingress_rel :: "udp_ingress_toml \<Rightarrow> ingress_config \<Rightarrow> bool" where
  "udp_ingress_rel t (IngressUDP c) \<longleftrightarrow>
     uic_addr c = socket_addr_new (case uit_ip t of Some ip \<Rightarrow> ip | None \<Rightarrow> IpV4 [0, 0, 0, 0]) (uit_port t) \<and>
     kept_or_generated ingress_id_to_str (uit_id t) (uic_id c) \<and> uic_auth_key c = uit_auth_key t"
| "udp_ingress_rel t (IngressTCP c) \<longleftrightarrow> False"

fun tcp_egress_rel :: "authentication_toml option \<Rightarrow> tcp_egress_toml \<Rightarrow> egress_config \<Rightarrow> bool" where
  "tcp_egress_rel d t (EgressTCP c) \<longleftrightarrow>
     Some (tec_authentication c) = map_option authentication_toml_into (or_else (tet_server t) d) \<and>
     kept_or_generated egress_id_to_str (tet_id t) (tec_id c) \<and> tec_ingress_id c = tet_ingress_id t \<and>
     tec_auth_key c = tet_auth_key t \<and> tec_target c = tet_target t"
| "tcp_egress_rel d t (EgressUDP c) \<longleftrightarrow> False"

fun udp_egress_rel :: "authentication_toml option \<Rightarrow> udp_egress_toml \<Rightarrow> egress_config \<Rightarrow> bool" where
  "udp_egress_rel d t (EgressUDP c) \<longleftrightarrow>
     Some (uec_authentication c) = map_option authentication_toml_into (or_else (uet_server t) d) \<and>
     kept_or_generated egress_id_to_str (uet_id t) (uec_id c) \<and> uec_ingress_id c = uet_ingress_id t \<and>
     uec_auth_key c = uet_auth_key t \<and> uec_target c = uet_target t"
| "udp_egress_rel d t (EgressTCP c) \<longleftrightarrow> False"

text \<open>The TLS section: without it every value is a default, with it only the name may be left out.\<close>

fun tls_rel :: "tls_toml option \<Rightarrow> tls_config \<Rightarrow> bool" where
  "tls_rel None c \<longleftrightarrow> cert_pem_path c = str_lit ''siffleux-cert.pem'' \<and> key_pem_path c = str_lit ''siffleux-key.pem'' \<and>
     cert_subject_alt_name c = str_lit ''self-host.siffleux.dev''"
| "tls_rel (Some t) c \<longleftrightarrow> cert_pem_path c = tt_cert_pem_path t \<and> key_pem_path c = tt_key_pem_path t \<and>
     cert_subject_alt_name c = (case tt_cert_subject_alt_name t of
       Some name \<Rightarrow> name | None \<Rightarrow> str_lit ''self-host.siffleux.dev'')"

lemmas default_defs = DEFAULT_SERVER_IP_def DEFAULT_SERVER_PORT_def DEFAULT_INGRESS_IP_def
  DEFAULT_SERVER_TLS_SUBJECT_ALT_NAME_def DEFAULT_SERVER_TLS_CERTIFICATE_FILE_def
  DEFAULT_SERVER_TLS_PRIVATE_KEY_FILE_def

lemma tls_of_toml_rel: "tls_rel t (tls_of_toml t)"
  by (cases t) (simp_all add: tls_of_toml_def default_defs split: option.split)

lemma ingress_toml_ends:
  assumes "base64_contract base64" "rng_lengths random"
  shows "ends (tcp_ingress_toml_into base64 random t) (tit_id t = None \<and> rng_fails random) (tcp_ingress_rel t)"
    and "ends (udp_ingress_toml_into base64 random u) (uit_id u = None \<and> rng_fails random) (udp_ingress_rel u)"
  unfolding tcp_ingress_toml_into_def udp_ingress_toml_into_def Let_def DEFAULT_INGRESS_IP_def
  by (rule ends_bind [OF generated_ends [where str_of = ingress_id_to_str, OF assms]];
      auto intro!: ends_return try_from_ok(2))+

text \<open>Some id of the file is left out and has to be generated.\<close>

definition lacks_id :: "server_toml \<Rightarrow> bool" where
  "lacks_id t \<longleftrightarrow> st_id t = None \<or> list_ex (\<lambda>i. tit_id i = None) (st_tcp_ingress t) \<or>
     list_ex (\<lambda>i. uit_id i = None) (st_udp_ingress t)"

text \<open>What a server file becomes.\<close>

definition server_rel :: "server_toml \<Rightarrow> server_config \<Rightarrow> ingress_config list \<Rightarrow> bool" where
  "server_rel t c ingresses \<longleftrightarrow>
     kept_or_generated server_id_to_str (st_id t) (sc_id c) \<and>
     sc_client_addr c = socket_addr_new (case st_ip t of Some ip \<Rightarrow> ip | None \<Rightarrow> IpV4 [0, 0, 0, 0])
       (case st_port t of Some port \<Rightarrow> port | None \<Rightarrow> 8765) \<and>
     tls_rel (st_tls t) (sc_tls c) \<and>
     (\<exists>tcp udp. ingresses = tcp @ udp \<and> list_all2 tcp_ingress_rel (st_tcp_ingress t) tcp \<and>
        list_all2 udp_ingress_rel (st_udp_ingress t) udp)"

lemma server_toml_ends:
  fixes t :: server_toml
  assumes "base64_contract base64" and "rng_lengths random"
  defines "panics \<equiv> lacks_id t \<and> rng_fails random"
  shows "ends (server_toml_into base64 random t :: (_, 'e) gen) panics (\<lambda>(c, ingresses). server_rel t c ingresses)"
proof -
  have i: "ends (or_generated base64 random 16 server_id_try_from (st_id t) :: (_, 'e) gen) panics
      (kept_or_generated server_id_to_str (st_id t))"
    using generated_ends [where str_of = server_id_to_str, OF assms(1,2) try_from_ok(1)]
    by (rule ends_mono) (auto simp: panics_def lacks_id_def)
  have tcp: "ends (collect_gen (tcp_ingress_toml_into base64 random) (st_tcp_ingress t) :: (_, 'e) gen) panics
      (list_all2 tcp_ingress_rel (st_tcp_ingress t))"
    by (rule ends_collect, rule ends_mono [OF ingress_toml_ends(1) [OF assms(1,2)]])
      (auto simp: panics_def lacks_id_def list_ex_iff)
  have udp: "ends (collect_gen (udp_ingress_toml_into base64 random) (st_udp_ingress t) :: (_, 'e) gen) panics
      (list_all2 udp_ingress_rel (st_udp_ingress t))"
    by (rule ends_collect, rule ends_mono [OF ingress_toml_ends(2) [OF assms(1,2)]])
      (auto simp: panics_def lacks_id_def list_ex_iff)
  show ?thesis
    unfolding server_toml_into_def Let_def
    by (rule ends_bind [OF i], rule ends_bind [OF tcp], rule ends_bind [OF udp], rule ends_return)
      (auto simp: server_rel_def default_defs tls_of_toml_rel split: option.split)
qed

lemma egress_toml_yields:
  assumes "base64_contract base64" "rng_contract random"
  shows "or_else (tet_server t) d \<noteq> None \<Longrightarrow> yields (tcp_egress_of_toml base64 random d t) (tcp_egress_rel d t)"
    and "or_else (uet_server u) d \<noteq> None \<Longrightarrow> yields (udp_egress_of_toml base64 random d u) (udp_egress_rel d u)"
  unfolding tcp_egress_of_toml_def udp_egress_of_toml_def
  by (rule yields_bind [OF generated_ids(3) [OF assms try_from_ok(3)]];
      auto simp: ok_or_def intro!: yields_bind [where P = "\<lambda>x. _ = Some x"] yields_lift yields_return)+

lemma egress_toml_refused:
  assumes "base64_contract base64" "rng_contract random"
  shows "or_else (tet_server t) d = None \<Longrightarrow>
      fst (tcp_egress_of_toml base64 random d t n) = Err (no_server ''TCP'' (tet_ingress_id t))"
    and "or_else (uet_server u) d = None \<Longrightarrow>
      fst (udp_egress_of_toml base64 random d u n) = Err (no_server ''UDP'' (uet_ingress_id u))"
  unfolding tcp_egress_of_toml_def udp_egress_of_toml_def
  by (rule bind_refused_later [OF generated_ids(3) [OF assms try_from_ok(3)]];
      simp add: ok_or_def bind_gen_def lift_gen_def)+

section \<open>Properties\<close>

text \<open>An encoder and a random source that keep the contracts.\<close>

definition sample_base64 :: "bytes \<Rightarrow> rust_str" where
  "sample_base64 bs = replicate (4 * ((length bs + 2) div 3)) 65"

definition sample_rng :: rng where
  "sample_rng n len = Ok (replicate len (of_nat n))"

lemma sample_contracts: "base64_contract sample_base64" "rng_contract sample_rng"
  by (simp_all add: base64_contract_def rng_contract_def sample_base64_def sample_rng_def list_all_iff)

definition sample_server_toml :: server_toml where
  "sample_server_toml = \<lparr>st_id = None, st_ip = None, st_port = None, st_tls = None,
     st_tcp_ingress = [\<lparr>tit_ip = None, tit_port = 3000, tit_id = None, tit_auth_key = AuthKey [107]\<rparr>],
     st_udp_ingress = []\<rparr>"

definition sample_client_toml :: client_toml where
  "sample_client_toml = \<lparr>ct_server = None, ct_tcp_egress = [],
     ct_udp_egress = [\<lparr>uet_server = None, uet_id = None, uet_ingress_id = IngressId [105],
       uet_auth_key = AuthKey [107], uet_target = [104]\<rparr>]\<rparr>"

text \<open>
  With a random source that never fails, the conversion of a parsed server file always
  succeeds.
\<close>

lemma server_toml_complete:
  assumes "base64_contract base64" and "rng_contract random"
  shows "yields (server_toml_into base64 random t :: (_, 'e) gen) (\<lambda>(c, ingresses). server_rel t c ingresses)"
  using server_toml_ends [of base64 random t] assms(1) rng_contract_lengths [OF assms(2)]
  by (intro ends_yields) simp

text \<open>
  C38. Loading a client file: refused, naming the first egress (TCP before UDP) that has
  neither a server of its own nor one for the whole file; otherwise every egress is kept in
  order, connects to its own server if it has one and else to the file's, and has its given
  id or a valid generated one.
\<close>

theorem client_toml_exact:
  assumes "base64_contract base64" and "rng_contract random"
  shows "case find (\<lambda>e. or_else (tet_server e) (ct_server t) = None) (ct_tcp_egress t) of
      Some e \<Rightarrow> fst (client_toml_try_from base64 random t n) = Err (no_server ''TCP'' (tet_ingress_id e))
    | None \<Rightarrow>
        (case find (\<lambda>e. or_else (uet_server e) (ct_server t) = None) (ct_udp_egress t) of
           Some e \<Rightarrow> fst (client_toml_try_from base64 random t n) = Err (no_server ''UDP'' (uet_ingress_id e))
         | None \<Rightarrow> yields (client_toml_try_from base64 random t) (\<lambda>es. \<exists>tcp udp. es = tcp @ udp \<and>
             list_all2 (tcp_egress_rel (ct_server t)) (ct_tcp_egress t) tcp \<and>
             list_all2 (udp_egress_rel (ct_server t)) (ct_udp_egress t) udp))"
proof (cases "find (\<lambda>e. or_else (tet_server e) (ct_server t) = None) (ct_tcp_egress t)")
  case (Some e)
  have "fst (collect_gen (tcp_egress_of_toml base64 random (ct_server t)) (ct_tcp_egress t) n) =
      Err (no_server ''TCP'' (tet_ingress_id e))"
    by (rule collect_refused [OF _ _ Some, where R = "tcp_egress_rel (ct_server t)"])
      (use egress_toml_yields(1) [OF assms] egress_toml_refused(1) [OF assms] in auto)
  then show ?thesis using Some by (simp add: client_toml_try_from_def bind_refused)
next
  case None
  then have "\<And>x. x \<in> set (ct_tcp_egress t) \<Longrightarrow> or_else (tet_server x) (ct_server t) \<noteq> None"
    by (auto simp: find_None_iff)
  then have tcp: "yields (collect_gen (tcp_egress_of_toml base64 random (ct_server t)) (ct_tcp_egress t))
      (list_all2 (tcp_egress_rel (ct_server t)) (ct_tcp_egress t))"
    by (intro yields_collect egress_toml_yields [OF assms]) blast
  show ?thesis
  proof (cases "find (\<lambda>e. or_else (uet_server e) (ct_server t) = None) (ct_udp_egress t)")
    case (Some e)
    have "fst (collect_gen (udp_egress_of_toml base64 random (ct_server t)) (ct_udp_egress t) m) =
        Err (no_server ''UDP'' (uet_ingress_id e))" for m
      by (rule collect_refused [OF _ _ Some, where R = "udp_egress_rel (ct_server t)"])
        (use egress_toml_yields(2) [OF assms] egress_toml_refused(2) [OF assms] in auto)
    then show ?thesis
      using None Some by (simp add: client_toml_try_from_def bind_refused_later [OF tcp] bind_refused)
  next
    case no_udp: None
    then have "\<And>x. x \<in> set (ct_udp_egress t) \<Longrightarrow> or_else (uet_server x) (ct_server t) \<noteq> None"
      by (auto simp: find_None_iff)
    then have udp: "yields (collect_gen (udp_egress_of_toml base64 random (ct_server t)) (ct_udp_egress t))
        (list_all2 (udp_egress_rel (ct_server t)) (ct_udp_egress t))"
      by (intro yields_collect egress_toml_yields [OF assms]) blast
    show ?thesis
      unfolding None no_udp option.case client_toml_try_from_def
      by (rule yields_bind [OF tcp], rule yields_bind [OF udp], rule yields_return) blast
  qed
qed

theorem client_toml_exact_witness:
  "fst (client_toml_try_from sample_base64 sample_rng sample_client_toml 0) =
    Err (no_server ''UDP'' (IngressId [105]))"
  using client_toml_exact [OF sample_contracts, of sample_client_toml 0]
  by (simp add: sample_client_toml_def or_else_def)

end
