(* ===== verification/Byte_Counter.thy ===== *)
theory Byte_Counter
  imports Rust_Prelude
begin

text \<open>
  \<^verbatim>\<open>common/byte_counter.rs\<close>: counters that forward every addition to their parent. A
  \<^verbatim>\<open>ByteCounter\<close> is a shared reference (\<^verbatim>\<open>Arc\<close>) and its clones alias it, so the counters live
  in an explicit store and a counter is its address. \<^verbatim>\<open>AtomicUsize\<close> additions wrap.
\<close>

section \<open>The store\<close>

record byte_counter_inner =
  parent :: "nat option"
  bytes_write :: usize
  bytes_read :: usize

record counter_store =
  next_addr :: nat
  cells :: "nat \<rightharpoonup> byte_counter_inner"

definition empty_store :: counter_store where
  "empty_store = \<lparr>next_addr = 0, cells = Map.empty\<rparr>"

section \<open>Operations\<close>

definition byte_counter_new :: "nat option \<Rightarrow> counter_store \<Rightarrow> nat \<times> counter_store" where
  "byte_counter_new par st =
     (next_addr st,
      st\<lparr>next_addr := Suc (next_addr st),
         cells := (cells st)(next_addr st \<mapsto> \<lparr>parent = par, bytes_write = 0, bytes_read = 0\<rparr>)\<rparr>)"

definition counter_bytes_read :: "counter_store \<Rightarrow> nat \<Rightarrow> usize option" where
  "counter_bytes_read st c = map_option bytes_read (cells st c)"

definition counter_bytes_write :: "counter_store \<Rightarrow> nat \<Rightarrow> usize option" where
  "counter_bytes_write st c = map_option bytes_write (cells st c)"

definition fetch_add_read :: "nat \<Rightarrow> usize \<Rightarrow> counter_store \<Rightarrow> counter_store" where
  "fetch_add_read c n st =
     st\<lparr>cells := (cells st)(c := map_option (\<lambda>x. x\<lparr>bytes_read := bytes_read x + n\<rparr>) (cells st c))\<rparr>"

definition fetch_add_write :: "nat \<Rightarrow> usize \<Rightarrow> counter_store \<Rightarrow> counter_store" where
  "fetch_add_write c n st =
     st\<lparr>cells := (cells st)(c := map_option (\<lambda>x. x\<lparr>bytes_write := bytes_write x + n\<rparr>) (cells st c))\<rparr>"

text \<open>The recursion to the parent; \<open>None\<close> would be a chain of parents that never ends.\<close>

partial_function (option) add_bytes_read ::
    "nat \<Rightarrow> usize \<Rightarrow> counter_store \<Rightarrow> counter_store option" where
  "add_bytes_read c n st =
     (case Option.bind (cells st c) parent of
        None \<Rightarrow> Some (fetch_add_read c n st)
      | Some p \<Rightarrow> Option.bind (add_bytes_read p n st) (\<lambda>st. Some (fetch_add_read c n st)))"

partial_function (option) add_bytes_write ::
    "nat \<Rightarrow> usize \<Rightarrow> counter_store \<Rightarrow> counter_store option" where
  "add_bytes_write c n st =
     (case Option.bind (cells st c) parent of
        None \<Rightarrow> Some (fetch_add_write c n st)
      | Some p \<Rightarrow> Option.bind (add_bytes_write p n st) (\<lambda>st. Some (fetch_add_write c n st)))"

section \<open>Well-formed stores\<close>

text \<open>A counter is created after its parent, so parents have smaller addresses.\<close>

definition store_ok :: "counter_store \<Rightarrow> bool" where
  "store_ok st \<longleftrightarrow>
     (\<forall>c x. cells st c = Some x \<longrightarrow>
        c < next_addr st \<and> (\<forall>p. parent x = Some p \<longrightarrow> p < c \<and> cells st p \<noteq> None))"

text \<open>The counters an addition to \<open>c\<close> reaches: \<open>c\<close>, its parent, and so on to the root.\<close>

inductive reaches :: "counter_store \<Rightarrow> nat \<Rightarrow> nat \<Rightarrow> bool" for st where
  here: "cells st c \<noteq> None \<Longrightarrow> reaches st c c"
| up: "cells st c = Some x \<Longrightarrow> parent x = Some p \<Longrightarrow> reaches st p d \<Longrightarrow> reaches st c d"

inductive_cases reaches_elim: "reaches st c d"

lemma store_ok_empty [simp]: "store_ok empty_store"
  by (simp add: store_ok_def empty_store_def)

lemma store_ok_new:
  assumes "store_ok st" and "\<And>p. par = Some p \<Longrightarrow> cells st p \<noteq> None"
    and "byte_counter_new par st = (c, st')"
  shows "store_ok st'" and "cells st c = None" and "cells st' c \<noteq> None"
    and "\<And>d. d \<noteq> c \<Longrightarrow> cells st' d = cells st d"
proof -
  have c: "c = next_addr st" using assms(3) by (simp add: byte_counter_new_def)
  show "cells st c = None"
    using assms(1) c by (cases "cells st c") (auto simp: store_ok_def)
  show "cells st' c \<noteq> None" and "\<And>d. d \<noteq> c \<Longrightarrow> cells st' d = cells st d"
    using assms(3) by (auto simp: byte_counter_new_def)
  have st': "st' = st\<lparr>next_addr := Suc c, cells := (cells st)(c \<mapsto>
      \<lparr>parent = par, bytes_write = 0, bytes_read = 0\<rparr>)\<rparr>"
    using assms(3) c by (simp add: byte_counter_new_def)
  have below: "p < c" if "cells st p \<noteq> None" for p
    using that assms(1) c by (auto simp: store_ok_def)
  show "store_ok st'"
    unfolding store_ok_def
  proof (intro allI impI)
    fix d x
    assume "cells st' d = Some x"
    then have "d = c \<and> parent x = par \<or> d \<noteq> c \<and> cells st d = Some x"
      by (auto simp: st' split: if_splits)
    then show "d < next_addr st' \<and> (\<forall>p. parent x = Some p \<longrightarrow> p < d \<and> cells st' p \<noteq> None)"
      using assms(1,2) below [of c] below by (auto simp: st' store_ok_def less_SucI)
  qed
qed

lemma reaches_le: "store_ok st \<Longrightarrow> reaches st c d \<Longrightarrow> d \<le> c"
  by (rotate_tac, induction rule: reaches.induct) (force simp: store_ok_def)+

lemma reaches_root:
  "cells st c = Some x \<Longrightarrow> parent x = None \<Longrightarrow> reaches st c d \<longleftrightarrow> d = c"
  by (auto intro: reaches.intros elim: reaches.cases)

lemma reaches_child:
  assumes "store_ok st" and "cells st c = Some x" and "parent x = Some p"
  shows "reaches st c d \<longleftrightarrow> d = c \<or> reaches st p d" and "\<not> reaches st p c"
proof -
  show "reaches st c d \<longleftrightarrow> d = c \<or> reaches st p d"
    using assms by (auto intro: reaches.intros elim: reaches.cases)
  show "\<not> reaches st p c"
    using assms reaches_le [OF assms(1), of p c] by (force simp: store_ok_def)
qed

section \<open>What an addition does\<close>

text \<open>\<open>same_shape st st'\<close>: the same counters with the same parents.\<close>

definition same_shape :: "counter_store \<Rightarrow> counter_store \<Rightarrow> bool" where
  "same_shape st st' \<longleftrightarrow> next_addr st' = next_addr st \<and>
     (\<forall>c. map_option parent (cells st' c) = map_option parent (cells st c))"

lemma same_shape_live: "same_shape st st' \<Longrightarrow> cells st' c = None \<longleftrightarrow> cells st c = None"
  by (metis same_shape_def option.map_disc_iff)

lemma same_shape_store_ok:
  assumes "same_shape st st'" and "store_ok st"
  shows "store_ok st'"
  unfolding store_ok_def
proof (intro allI impI)
  fix c x
  assume "cells st' c = Some x"
  moreover have "map_option parent (cells st' c) = map_option parent (cells st c)"
    using assms(1) by (simp add: same_shape_def)
  ultimately obtain y where "cells st c = Some y" "parent y = parent x"
    by (cases "cells st c") auto
  then show "c < next_addr st' \<and> (\<forall>p. parent x = Some p \<longrightarrow> p < c \<and> cells st' p \<noteq> None)"
    using assms same_shape_live [OF assms(1)] by (auto simp: same_shape_def store_ok_def)
qed

lemma same_shape_reaches_imp: "reaches st c d \<Longrightarrow> same_shape st st' \<Longrightarrow> reaches st' c d"
proof (induction rule: reaches.induct)
  case (here c)
  then have "cells st' c \<noteq> None" by (metis same_shape_def option.map_disc_iff)
  then show ?case by (rule reaches.here)
next
  case (up c x p d)
  then obtain y where "cells st' c = Some y" "parent y = Some p"
    by (metis same_shape_def map_option_eq_Some)
  with up show ?case by (blast intro: reaches.up)
qed

lemma same_shape_sym: "same_shape st st' \<Longrightarrow> same_shape st' st"
  by (simp add: same_shape_def)

lemma same_shape_reaches: "same_shape st st' \<Longrightarrow> reaches st' c d = reaches st c d"
  using same_shape_reaches_imp same_shape_sym by blast

lemma same_shape_trans: "same_shape a b \<Longrightarrow> same_shape b c \<Longrightarrow> same_shape a c"
  by (simp add: same_shape_def)

text \<open>
  The two directions are the same algorithm on different fields. The locale states what
  the algorithm needs of the field, and its lemmas are proved once.
\<close>

locale counted =
  fixes get :: "byte_counter_inner \<Rightarrow> usize"
    and other :: "byte_counter_inner \<Rightarrow> usize"
    and bump :: "nat \<Rightarrow> usize \<Rightarrow> counter_store \<Rightarrow> counter_store"
    and add :: "nat \<Rightarrow> usize \<Rightarrow> counter_store \<Rightarrow> counter_store option"
  assumes bump_shape: "same_shape st (bump c n st)"
    and bump_get: "map_option get (cells (bump c n st) d) =
      map_option (\<lambda>x. get x + (if d = c then n else 0)) (cells st d)"
    and bump_other: "map_option other (cells (bump c n st) d) = map_option other (cells st d)"
    and add_rec: "add c n st = (case Option.bind (cells st c) parent of
        None \<Rightarrow> Some (bump c n st)
      | Some p \<Rightarrow> Option.bind (add p n st) (\<lambda>st. Some (bump c n st)))"
begin

lemma add_effect:
  assumes "store_ok st" and "cells st c \<noteq> None"
  shows "\<exists>st'. add c n st = Some st' \<and> same_shape st st' \<and>
    (\<forall>d. map_option get (cells st' d) =
       map_option (\<lambda>x. get x + (if reaches st c d then n else 0)) (cells st d)) \<and>
    (\<forall>d. map_option other (cells st' d) = map_option other (cells st d))"
  using assms(2)
proof (induction c rule: less_induct)
  case (less c)
  then obtain x where x: "cells st c = Some x" by blast
  show ?case
  proof (cases "parent x")
    case None
    with x show ?thesis
      by (simp add: add_rec [of c] bump_shape bump_get bump_other reaches_root [OF x None])
  next
    case (Some p)
    with x assms(1) have "p < c" "cells st p \<noteq> None" by (auto simp: store_ok_def)
    from less.IH [OF this] obtain st' where st': "add p n st = Some st'" "same_shape st st'"
      "\<And>d. map_option get (cells st' d) =
         map_option (\<lambda>x. get x + (if reaches st p d then n else 0)) (cells st d)"
      "\<And>d. map_option other (cells st' d) = map_option other (cells st d)"
      by blast
    have g: "map_option get (cells (bump c n st') d) =
        map_option (\<lambda>x. get x + (if reaches st c d then n else 0)) (cells st d)" for d
    proof -
      have "map_option get (cells (bump c n st') d) =
          map_option (\<lambda>w. w + (if d = c then n else 0)) (map_option get (cells st' d))"
        by (simp add: bump_get option.map_comp comp_def)
      also have "\<dots> = map_option (\<lambda>x. get x + (if reaches st c d then n else 0)) (cells st d)"
        using reaches_child [OF assms(1) x Some]
        by (simp add: st'(3) option.map_comp comp_def)
      finally show ?thesis .
    qed
    show ?thesis
      using x Some st' g by (auto simp: add_rec [of c] bump_other intro: same_shape_trans bump_shape)
  qed
qed

end

interpretation read_count: counted bytes_read bytes_write fetch_add_read add_bytes_read
  by unfold_locales
    (auto simp: same_shape_def fetch_add_read_def option.map_comp comp_def
       add_bytes_read.simps [abs_def] intro: map_option_cong)

interpretation write_count: counted bytes_write bytes_read fetch_add_write add_bytes_write
  by unfold_locales
    (auto simp: same_shape_def fetch_add_write_def option.map_comp comp_def
       add_bytes_write.simps [abs_def] intro: map_option_cong)


section \<open>Totals\<close>

text \<open>A sequence of additions, each to any counter.\<close>

fun add_all :: "(nat \<Rightarrow> usize \<Rightarrow> counter_store \<Rightarrow> counter_store option) \<Rightarrow>
    (nat \<times> usize) list \<Rightarrow> counter_store \<Rightarrow> counter_store option" where
  "add_all add [] st = Some st"
| "add_all add ((c, n) # ops) st = Option.bind (add c n st) (add_all add ops)"

definition total_for :: "counter_store \<Rightarrow> (nat \<times> usize) list \<Rightarrow> nat \<Rightarrow> usize" where
  "total_for st ops d = sum_list (map snd (filter (\<lambda>(c, n). reaches st c d) ops))"

context counted
begin

lemma add_all_effect:
  assumes "store_ok st" and "\<forall>(c, n) \<in> set ops. cells st c \<noteq> None"
  shows "\<exists>st'. add_all add ops st = Some st' \<and> same_shape st st' \<and>
    (\<forall>d. map_option get (cells st' d) = map_option (\<lambda>x. get x + total_for st ops d) (cells st d)) \<and>
    (\<forall>d. map_option other (cells st' d) = map_option other (cells st d))"
  using assms
proof (induction ops arbitrary: st)
  case Nil
  then show ?case by (auto simp: same_shape_def total_for_def)
next
  case (Cons op ops)
  obtain c n where op: "op = (c, n)" by (cases op)
  from Cons.prems op obtain s where s: "add c n st = Some s" "same_shape st s"
    "\<And>d. map_option get (cells s d) =
       map_option (\<lambda>x. get x + (if reaches st c d then n else 0)) (cells st d)"
    "\<And>d. map_option other (cells s d) = map_option other (cells st d)"
    using add_effect [of st c n] by auto
  have live: "\<forall>(c, n) \<in> set ops. cells s c \<noteq> None"
    using Cons.prems(2) by (simp add: same_shape_live [OF s(2)])
  from Cons.IH [OF same_shape_store_ok [OF s(2) Cons.prems(1)] live] obtain s' where s':
    "add_all add ops s = Some s'" "same_shape s s'"
    "\<And>d. map_option get (cells s' d) = map_option (\<lambda>x. get x + total_for s ops d) (cells s d)"
    "\<And>d. map_option other (cells s' d) = map_option other (cells s d)"
    by blast
  have t: "total_for s ops d = total_for st ops d" for d
    by (simp add: total_for_def same_shape_reaches [OF s(2)])
  have "map_option get (cells s' d) = map_option (\<lambda>x. get x + total_for st (op # ops) d) (cells st d)" for d
  proof -
    have "map_option get (cells s' d) = map_option (\<lambda>w. w + total_for st ops d) (map_option get (cells s d))"
      by (simp add: s'(3) t option.map_comp comp_def)
    then show ?thesis
      by (simp add: s(3) option.map_comp comp_def total_for_def op add_ac)
  qed
  moreover have "add_all add (op # ops) st = Some s'" using s(1) s'(1) op by simp
  moreover have "same_shape st s'" using s(2) s'(2) by (rule same_shape_trans)
  moreover have "map_option other (cells s' d) = map_option other (cells st d)" for d
    by (simp add: s(4) s'(4))
  ultimately show ?case by blast
qed

end

text \<open>
  C29. Every addition returns, and after any sequence of additions each counter holds, modulo
  2^64, its previous value plus all the amounts added to it or to a counter below it; the
  write counts and the parents are unchanged. The order of the additions does not matter.
\<close>

theorem bytes_read_totals:
  assumes "store_ok st" and "\<forall>(c, n) \<in> set ops. cells st c \<noteq> None"
  shows "\<exists>st'. add_all add_bytes_read ops st = Some st' \<and> store_ok st' \<and>
    (\<forall>d. counter_bytes_read st' d = map_option (\<lambda>w. w + total_for st ops d) (counter_bytes_read st d)) \<and>
    (\<forall>d. counter_bytes_write st' d = counter_bytes_write st d)"
proof -
  obtain st' where st': "add_all add_bytes_read ops st = Some st'" "same_shape st st'"
    "\<forall>d. map_option bytes_read (cells st' d) =
       map_option (\<lambda>x. bytes_read x + total_for st ops d) (cells st d)"
    "\<forall>d. map_option bytes_write (cells st' d) = map_option bytes_write (cells st d)"
    using read_count.add_all_effect [OF assms] by blast
  with same_shape_store_ok [OF st'(2) assms(1)] show ?thesis
    by (simp add: counter_bytes_read_def counter_bytes_write_def option.map_comp comp_def)
qed


definition sample_store :: counter_store where
  "sample_store = snd (byte_counter_new (Some 1) (snd (byte_counter_new (Some 0)
     (snd (byte_counter_new None empty_store)))))"

lemma sample_store_ok: "store_ok sample_store"
  by (simp add: sample_store_def byte_counter_new_def empty_store_def store_ok_def)

lemma sample_cells:
  "cells sample_store 0 = Some \<lparr>parent = None, bytes_write = 0, bytes_read = 0\<rparr>"
  "cells sample_store 1 = Some \<lparr>parent = Some 0, bytes_write = 0, bytes_read = 0\<rparr>"
  "cells sample_store 2 = Some \<lparr>parent = Some 1, bytes_write = 0, bytes_read = 0\<rparr>"
  by (simp_all add: sample_store_def byte_counter_new_def empty_store_def)

lemma sample_reaches: "reaches sample_store 1 0" "reaches sample_store 2 0"
proof -
  show 1: "reaches sample_store 1 0"
    using reaches.up [OF sample_cells(2) _ reaches.here [of _ 0]] by (simp add: sample_cells)
  show "reaches sample_store 2 0"
    using reaches.up [OF sample_cells(3) _ 1] by simp
qed

theorem bytes_read_totals_witness:
  "\<exists>st'. add_all add_bytes_read [(2, 5), (1, 3)] sample_store = Some st' \<and>
     counter_bytes_read st' 0 = Some 8"
proof -
  have live: "\<forall>(c, n) \<in> set [(2 :: nat, 5 :: usize), (1, 3)]. cells sample_store c \<noteq> None"
    using sample_cells by simp
  have "counter_bytes_read sample_store 0 = Some 0"
    by (simp add: sample_cells counter_bytes_read_def)
  moreover have "total_for sample_store [(2, 5), (1, 3)] 0 = 8"
    using sample_reaches by (simp add: total_for_def)
  ultimately show ?thesis
    using bytes_read_totals [OF sample_store_ok live] by fastforce
qed

end
