(* ===== verification/Tunnel.thy ===== *)
theory Tunnel
  imports Siffleux_Error Byte_Counter
begin

text \<open>
  \<^verbatim>\<open>common/tunnel.rs\<close>: a tunnel wraps a QUIC connection, and every stream opened or accepted
  on it gets a byte counter below the tunnel's. The QUIC library is not modelled: a
  connection is a handle, the results of the library's calls are arguments, and the calls a
  function makes are the list it returns.
\<close>

type_synonym conn = nat

datatype quic_call =
    CloseConnection conn varint string
  | AwaitClosed conn
  | SendDatagram conn bytes

record 'u tunnel =
  tunnel_id :: 'u
  tunnel_server_id :: server_id
  tunnel_connection :: conn
  tunnel_byte_counter :: nat

record tunnel_stream =
  stream_id :: u64
  stream_byte_counter :: nat

section \<open>Operations\<close>

definition tunnel_new ::
    "'u \<Rightarrow> server_id \<Rightarrow> conn \<Rightarrow> nat option \<Rightarrow> counter_store \<Rightarrow> 'u tunnel \<times> counter_store" where
  "tunnel_new i server_id connection parent_byte_counter st =
     (let (c, st) = byte_counter_new parent_byte_counter st in
      (\<lparr>tunnel_id = i, tunnel_server_id = server_id, tunnel_connection = connection,
        tunnel_byte_counter = c\<rparr>, st))"

text \<open>The accessors of the fields, under the source's names with the type's in front.\<close>

definition tunnel_get_id :: "'u tunnel \<Rightarrow> 'u" where
  [simp]: "tunnel_get_id self = tunnel_id self"

definition tunnel_get_server_id :: "'u tunnel \<Rightarrow> server_id" where
  [simp]: "tunnel_get_server_id self = tunnel_server_id self"

definition tunnel_get_byte_counter :: "'u tunnel \<Rightarrow> nat" where
  [simp]: "tunnel_get_byte_counter self = tunnel_byte_counter self"

definition tunnel_closed :: "'u tunnel \<Rightarrow> quic_call list" where
  "tunnel_closed self = [AwaitClosed (tunnel_connection self)]"

definition tunnel_stream_get_id :: "tunnel_stream \<Rightarrow> u64" where
  [simp]: "tunnel_stream_get_id self = stream_id self"

definition tunnel_stream_get_byte_counter :: "tunnel_stream \<Rightarrow> nat" where
  [simp]: "tunnel_stream_get_byte_counter self = stream_byte_counter self"

definition tunnel_is_closed :: "(conn \<Rightarrow> connection_error option) \<Rightarrow> 'u tunnel \<Rightarrow> bool" where
  "tunnel_is_closed close_reason_of t = (close_reason_of (tunnel_connection t) \<noteq> None)"

definition tunnel_close_with_reason :: "'u tunnel \<Rightarrow> varint \<Rightarrow> string \<Rightarrow> quic_call list" where
  "tunnel_close_with_reason t code reason =
     [CloseConnection (tunnel_connection t) code reason, AwaitClosed (tunnel_connection t)]"

definition tunnel_close :: "'u tunnel \<Rightarrow> quic_call list" where
  "tunnel_close t = tunnel_close_with_reason t CONNECTION_EOF ''done''"

definition tunnel_send_datagram :: "'u tunnel \<Rightarrow> bytes \<Rightarrow> quic_call list" where
  "tunnel_send_datagram t bs = [SendDatagram (tunnel_connection t) bs]"

definition tunnel_read_datagram :: "(bytes, connection_error) result \<Rightarrow> (bytes, error) result" where
  "tunnel_read_datagram received = (case received of
     Ok bs \<Rightarrow> Ok bs | Err e \<Rightarrow> Err (from_connection_error e) | Panic \<Rightarrow> Panic)"

definition tunnel_stream_new :: "u64 \<Rightarrow> nat \<Rightarrow> counter_store \<Rightarrow> tunnel_stream \<times> counter_store" where
  "tunnel_stream_new i parent_counter st =
     (let (c, st) = byte_counter_new (Some parent_counter) st in
      (\<lparr>stream_id = i, stream_byte_counter = c\<rparr>, st))"

text \<open>
  \<open>quinn_stream_to_framed\<close> also installs the two inspectors: what they do with the bytes
  that pass is \<open>inspect_read\<close> and \<open>inspect_write\<close>.
\<close>

definition quinn_stream_to_framed ::
    "'u tunnel \<Rightarrow> u64 \<Rightarrow> counter_store \<Rightarrow> (tunnel_stream \<times> counter_store, error) result" where
  "quinn_stream_to_framed t index_of_send_stream st =
     Ok (tunnel_stream_new index_of_send_stream (tunnel_byte_counter t) st)"

definition inspect_read :: "tunnel_stream \<Rightarrow> bytes \<Rightarrow> counter_store \<Rightarrow> counter_store option" where
  "inspect_read s bs st = add_bytes_read (stream_byte_counter s) (of_nat (length bs)) st"

definition inspect_write :: "tunnel_stream \<Rightarrow> bytes \<Rightarrow> counter_store \<Rightarrow> counter_store option" where
  "inspect_write s bs st = add_bytes_write (stream_byte_counter s) (of_nat (length bs)) st"

definition tunnel_create_stream ::
    "'u tunnel \<Rightarrow> (u64, connection_error) result \<Rightarrow> counter_store \<Rightarrow>
      (tunnel_stream \<times> counter_store, error) result" where
  "tunnel_create_stream t open_bi st = (case open_bi of
     Ok i \<Rightarrow> quinn_stream_to_framed t i st
   | Err e \<Rightarrow> Err (from_connection_error e)
   | Panic \<Rightarrow> Panic)"

definition tunnel_accept_stream ::
    "'u tunnel \<Rightarrow> (u64, connection_error) result \<Rightarrow> counter_store \<Rightarrow>
      (tunnel_stream \<times> counter_store, error) result" where
  "tunnel_accept_stream t accept_bi st = (case accept_bi of
     Ok i \<Rightarrow> quinn_stream_to_framed t i st
   | Err e \<Rightarrow> Err (from_connection_error e)
   | Panic \<Rightarrow> Panic)"

section \<open>Counting the traffic of a tunnel\<close>

definition counter_below :: "counter_store \<Rightarrow> nat \<Rightarrow> nat \<Rightarrow> bool" where
  "counter_below st p c = (map_option parent (cells st c) = Some (Some p))"

lemma counter_below_reaches:
  assumes "store_ok st" and "counter_below st p c"
  shows "reaches st c p" and "reaches st c d \<longleftrightarrow> d = c \<or> reaches st p d"
    and "cells st p \<noteq> None" and "cells st c \<noteq> None"
proof -
  from assms(2) obtain x where x: "cells st c = Some x" "parent x = Some p"
    by (auto simp: counter_below_def)
  with assms(1) show "cells st p \<noteq> None" "cells st c \<noteq> None" by (auto simp: store_ok_def)
  then show "reaches st c p" using x by (blast intro: reaches.intros)
  show "reaches st c d \<longleftrightarrow> d = c \<or> reaches st p d"
    using reaches_child(1) [OF assms(1) x] .
qed

lemma counter_below_new:
  assumes "store_ok st" and "cells st p \<noteq> None" and "byte_counter_new (Some p) st = (c, st')"
  shows "store_ok st'" and "counter_below st' p c"
    and "counter_below st q d \<Longrightarrow> counter_below st' q d"
proof -
  show "store_ok st'" using store_ok_new(1) [OF assms(1) _ assms(3)] assms(2) by blast
  show "counter_below st' p c" using assms(3) by (auto simp: counter_below_def byte_counter_new_def)
  show "counter_below st' q d" if "counter_below st q d"
    using that store_ok_new(2,4) [OF assms(1) _ assms(3)] assms(2)
    by (cases "d = c") (auto simp: counter_below_def)
qed

text \<open>
  Reading from streams: \<open>reads\<close> lists the chunks in the order in which the inspectors see
  them, on any of the tunnel's streams.
\<close>

fun run_reads :: "(tunnel_stream \<times> bytes) list \<Rightarrow> counter_store \<Rightarrow> counter_store option" where
  "run_reads [] st = Some st"
| "run_reads ((s, bs) # rs) st = Option.bind (inspect_read s bs st) (run_reads rs)"

abbreviation read_ops :: "(tunnel_stream \<times> bytes) list \<Rightarrow> (nat \<times> usize) list" where
  "read_ops \<equiv> map (\<lambda>(s, bs). (stream_byte_counter s, of_nat (length bs)))"

lemma run_reads_add_all: "run_reads rs = add_all add_bytes_read (read_ops rs)"
proof (induction rs)
  case Nil
  show ?case by (rule ext) simp
next
  case (Cons r rs)
  obtain s bs where "r = (s, bs)" by (cases r)
  with Cons.IH show ?case by (intro ext) (simp add: inspect_read_def)
qed

lemma total_for_all:
  assumes "\<forall>(s, bs) \<in> set rs. reaches st (stream_byte_counter s) d"
  shows "total_for st (read_ops rs) d = of_nat (sum_list (map (length \<circ> snd) rs))"
  using assms by (induction rs) (auto simp: total_for_def)

lemma tunnel_reads_total:
  assumes ok: "store_ok st" and below: "counter_below st p (tunnel_byte_counter t)"
    and streams: "\<forall>(s, bs) \<in> set rs. counter_below st (tunnel_byte_counter t) (stream_byte_counter s)"
    and d: "d = tunnel_byte_counter t \<or> d = p"
  shows "\<exists>st'. run_reads rs st = Some st' \<and> counter_bytes_read st' d =
    map_option (\<lambda>w. w + of_nat (sum_list (map (length \<circ> snd) rs))) (counter_bytes_read st d)"
proof -
  have r: "\<forall>(s, bs) \<in> set rs. reaches st (stream_byte_counter s) d"
    using streams d counter_below_reaches(1) [OF ok below] counter_below_reaches(1,2) [OF ok] by blast
  have live: "\<forall>(c, n) \<in> set (read_ops rs). cells st c \<noteq> None"
    using streams counter_below_reaches(4) [OF ok] by fastforce
  obtain st' where "add_all add_bytes_read (read_ops rs) st = Some st'"
    "\<forall>d. map_option bytes_read (cells st' d) =
       map_option (\<lambda>x. bytes_read x + total_for st (read_ops rs) d) (cells st d)"
    using read_count.add_all_effect [OF ok live] by blast
  then show ?thesis
    by (simp add: run_reads_add_all total_for_all [OF r] counter_bytes_read_def option.map_comp comp_def)
qed

text \<open>
  Whatever the order in which the chunks of a tunnel's streams arrive, the tunnel's own
  counter and the counter of the server or client above it grow by exactly the number of
  bytes read, modulo 2^64.
\<close>

lemma tunnel_counts_its_streams:
  assumes "store_ok st" and "counter_below st p (tunnel_byte_counter t)"
    and "\<forall>(s, bs) \<in> set rs. counter_below st (tunnel_byte_counter t) (stream_byte_counter s)"
  shows "\<exists>st'. run_reads rs st = Some st' \<and>
    counter_bytes_read st' (tunnel_byte_counter t) =
      map_option (\<lambda>w. w + of_nat (sum_list (map (length \<circ> snd) rs)))
        (counter_bytes_read st (tunnel_byte_counter t)) \<and>
    counter_bytes_read st' p =
      map_option (\<lambda>w. w + of_nat (sum_list (map (length \<circ> snd) rs))) (counter_bytes_read st p)"
  using tunnel_reads_total [OF assms, of "tunnel_byte_counter t"] tunnel_reads_total [OF assms, of p]
  by auto

lemma tunnel_counts_its_streams_witness:
  "let t = \<lparr>tunnel_id = (), tunnel_server_id = ServerId [115], tunnel_connection = 0,
             tunnel_byte_counter = 1\<rparr>;
       s = \<lparr>stream_id = 0, stream_byte_counter = 2\<rparr>
   in \<exists>st'. run_reads [(s, [1, 2, 3]), (s, [4])] sample_store = Some st' \<and>
        counter_bytes_read st' (tunnel_byte_counter t) = Some 4 \<and> counter_bytes_read st' 0 = Some 4"
proof -
  have b: "counter_below sample_store 0 1" "counter_below sample_store 1 2"
    by (simp_all add: counter_below_def sample_cells [simplified])
  have z: "counter_bytes_read sample_store 0 = Some 0" "counter_bytes_read sample_store 1 = Some 0"
    by (simp_all add: sample_cells [simplified] counter_bytes_read_def)
  show ?thesis
    using tunnel_counts_its_streams [OF sample_store_ok, of 0
      "\<lparr>tunnel_id = (), tunnel_server_id = ServerId [115], tunnel_connection = 0, tunnel_byte_counter = 1\<rparr>"
      "[(\<lparr>stream_id = 0, stream_byte_counter = 2\<rparr>, [1, 2, 3]), (\<lparr>stream_id = 0, stream_byte_counter = 2\<rparr>, [4])]"]
      b z by (simp add: Let_def)
qed

text \<open>
  Opening and accepting a stream: a lost connection becomes the error of its close code;
  otherwise the stream's fresh counter is placed below the tunnel's and no other counter
  changes its place.
\<close>

lemma tunnel_open_stream:
  assumes "store_ok st" and "cells st (tunnel_byte_counter t) \<noteq> None"
  shows "tunnel_create_stream t (Err e) st = Err (from_connection_error e) \<and>
    (\<exists>s st'. tunnel_create_stream t (Ok i) st = Ok (s, st') \<and>
       tunnel_accept_stream t (Ok i) st = Ok (s, st') \<and> stream_id s = i \<and> store_ok st' \<and>
       cells st (stream_byte_counter s) = None \<and>
       counter_below st' (tunnel_byte_counter t) (stream_byte_counter s) \<and>
       (\<forall>q d. counter_below st q d \<longrightarrow> counter_below st' q d))"
proof -
  obtain c st' where n: "byte_counter_new (Some (tunnel_byte_counter t)) st = (c, st')"
    by (meson surj_pair)
  show ?thesis
    using counter_below_new [OF assms n] store_ok_new(2) [OF assms(1) _ n] assms(2) n
    by (simp add: tunnel_create_stream_def tunnel_accept_stream_def quinn_stream_to_framed_def
        tunnel_stream_new_def)
qed

end
