(* ===== verification/Egress_Process.thy ===== *)
theory Egress_Process
  imports Siffleux_Error
begin

text \<open>
  What \<^verbatim>\<open>client/egress/tcp_egress.rs\<close> and \<^verbatim>\<open>client/egress/udp_egress.rs\<close> share: the published
  state (\<^verbatim>\<open>client/egress/egress.rs\<close>), the delay before a reconnection, the shape of the task
  that keeps a tunnel connected, and the protocol of \<^verbatim>\<open>start\<close> and \<^verbatim>\<open>stop\<close> calls. The two files
  repeat this code; two locales state it once: \<open>reconnecting\<close> for the task and
  \<open>egress_contract\<close> for the calls, which may overlap.
\<close>

datatype egress_state = Stopped | Starting | Ready

section \<open>The delay before a reconnection\<close>

text \<open>
  \<^verbatim>\<open>(100 * 2_u64.pow(retry)).min(30_000)\<close> with \<^verbatim>\<open>retry: u32\<close>. Rust checks the power and the
  product for overflow in debug builds and wraps in release builds; the first argument says
  which.
\<close>

definition pow2_u64 :: "bool \<Rightarrow> u32 \<Rightarrow> (u64, 'e) result" where
  "pow2_u64 overflow_checks retry =
     (if overflow_checks \<and> 2 ^ 64 \<le> (2 :: nat) ^ unat retry then Panic else Ok (2 ^ unat retry))"

definition mul_u64 :: "bool \<Rightarrow> u64 \<Rightarrow> u64 \<Rightarrow> (u64, 'e) result" where
  "mul_u64 overflow_checks a b =
     (if overflow_checks \<and> 2 ^ 64 \<le> unat a * unat b then Panic else Ok (a * b))"

definition backoff_ms :: "bool \<Rightarrow> u32 \<Rightarrow> (u64, 'e) result" where
  "backoff_ms overflow_checks retry =
     and_then (pow2_u64 overflow_checks retry) (\<lambda>p.
     and_then (mul_u64 overflow_checks 100 p) (\<lambda>ms. Ok (min ms 30000)))"

definition next_retry :: "bool \<Rightarrow> u32 \<Rightarrow> (u32, 'e) result" where
  "next_retry overflow_checks retry =
     (if overflow_checks \<and> unat retry + 1 = 2 ^ 32 then Panic else Ok (retry + 1))"

text \<open>The documented delay: doubling from 100 ms, at most 30 s.\<close>

definition documented_ms :: "nat \<Rightarrow> nat" where
  "documented_ms n = min (100 * 2 ^ n) 30000"

section \<open>The task that keeps a tunnel connected\<close>

text \<open>
  The control state of the task: waiting for \<^verbatim>\<open>connect\<close>, serving a tunnel (the session
  state is the egress's own), sleeping before the next attempt, returned, panicked. An event
  is what the \<^verbatim>\<open>await\<close> or \<^verbatim>\<open>select!\<close> of that state yields; one it does not wait for has no
  step. \<open>Session\<close> has \<^verbatim>\<open>retry = 0\<close>.
\<close>

datatype 's phase = Connecting u32 | Session 's | BackingOff u32 | TaskReturned | TaskPanicked

datatype ('t, 'e) task_event =
    ConnectReturned "('t, error) result"
  | SleepElapsed
  | CancelSeen
  | TunnelClosed
  | SessionEvent 'e

datatype 'a task_act = SendState egress_state | SleepFor u64 | SessionAct 'a

fun run_task ::
    "('e \<Rightarrow> 's phase \<Rightarrow> ('s phase \<times> 'a list) option) \<Rightarrow> 'e list \<Rightarrow> 's phase \<Rightarrow> ('s phase \<times> 'a list) option" where
  "run_task step [] p = Some (p, [])"
| "run_task step (e # es) p =
     (case step e p of
        None \<Rightarrow> None
      | Some (q, acts) \<Rightarrow>
          (case run_task step es q of None \<Rightarrow> None | Some (r, rest) \<Rightarrow> Some (r, acts @ rest)))"

lemma run_task_append:
  "run_task step (es @ fs) p =
    (case run_task step es p of
       None \<Rightarrow> None
     | Some (q, acts) \<Rightarrow>
         (case run_task step fs q of None \<Rightarrow> None | Some (r, rest) \<Rightarrow> Some (r, acts @ rest)))"
  by (induction es arbitrary: p) (auto split: option.splits)

section \<open>The delay, exactly\<close>

lemma min_word_nat: "unat (min a b :: 'a::len word) = min (unat a) (unat b)"
  by (simp add: min_def word_le_nat_alt)

lemma pow_from_62:
  assumes "62 \<le> n"
  shows "(100 :: u64) * 2 ^ n = 0"
proof -
  obtain k where n: "n = 62 + k" using assms le_Suc_ex by blast
  have z: "(100 :: u64) * 2 ^ 62 = 0" by simp
  have "(100 :: u64) * 2 ^ n = (100 * 2 ^ 62) * 2 ^ k" by (simp only: n power_add mult.assoc)
  then show ?thesis by (simp only: z mult_zero_left)
qed

lemma below_62_cases:
  assumes "n < (62 :: nat)"
  shows "n \<le> 57 \<or> n = 58 \<or> n = 59 \<or> n = 60 \<or> n = 61"
  using assms by linarith

lemma unat_u64_of_nat: "m < 2 ^ 64 \<Longrightarrow> unat (of_nat m :: u64) = m"
  by (simp add: unat_of_nat take_bit_nat_eq_self)

lemma unat_delay_le_57:
  assumes "n \<le> 57"
  shows "unat (100 * 2 ^ n :: u64) = 100 * 2 ^ n"
proof -
  have "(2 :: nat) ^ n \<le> 2 ^ 57" using assms by (intro power_increasing) auto
  then have lt: "100 * (2 :: nat) ^ n < 2 ^ 64" by simp
  have "(100 * 2 ^ n :: u64) = of_nat (100 * 2 ^ n)" by simp
  then show ?thesis using unat_u64_of_nat [OF lt] by (simp only:)
qed

lemma documented_large: "9 \<le> n \<Longrightarrow> documented_ms n = 30000"
proof -
  assume "9 \<le> n"
  then have "(2 :: nat) ^ 9 \<le> 2 ^ n" by (intro power_increasing) auto
  then show ?thesis by (simp add: documented_ms_def min_def)
qed

lemma unat_delay:
  "unat (min (100 * 2 ^ n :: u64) 30000) = (if n < 62 then documented_ms n else 0)"
proof (cases "n < 62")
  case True
  then consider "n \<le> 57" | "n = 58" | "n = 59" | "n = 60" | "n = 61"
    using below_62_cases by blast
  then show ?thesis
  proof cases
    case 1
    then show ?thesis using unat_delay_le_57 [OF 1] True by (simp add: min_word_nat documented_ms_def)
  qed (simp_all add: min_word_nat documented_large)
next
  case False
  then show ?thesis using pow_from_62 [of n] by (simp add: min_word_nat)
qed

lemma overflow_iff: "2 ^ 64 \<le> 100 * (2 :: nat) ^ n \<longleftrightarrow> 58 \<le> n"
proof
  assume a: "2 ^ 64 \<le> 100 * (2 :: nat) ^ n"
  show "58 \<le> n"
  proof (rule ccontr)
    assume "\<not> 58 \<le> n"
    then have "(2 :: nat) ^ n \<le> 2 ^ 57" by (intro power_increasing) auto
    then show False using a by simp
  qed
next
  assume "58 \<le> n"
  then have "(2 :: nat) ^ 58 \<le> 2 ^ n" by (intro power_increasing) auto
  then show "2 ^ 64 \<le> 100 * (2 :: nat) ^ n" by simp
qed

lemma unat_pow2: "n < 64 \<Longrightarrow> unat (2 ^ n :: u64) = 2 ^ n"
proof -
  assume "n < 64"
  then have "(2 :: nat) ^ n < 2 ^ 64" by (intro power_strict_increasing) auto
  from unat_u64_of_nat [OF this] show ?thesis by simp
qed

lemma backoff_checked:
  "backoff_ms True retry = (if unat retry \<le> 57 then Ok (min (100 * 2 ^ unat retry) 30000) else Panic)"
proof (cases "unat retry < 64")
  case True
  then have "\<not> 2 ^ 64 \<le> (2 :: nat) ^ unat retry" by (simp add: power_increasing_iff del: power_numeral)
  with True show ?thesis
    using overflow_iff [of "unat retry"]
    by (auto simp: backoff_ms_def pow2_u64_def mul_u64_def unat_pow2)
next
  case False
  then have "(2 :: nat) ^ 64 \<le> 2 ^ unat retry" by (intro power_increasing) auto
  with False show ?thesis by (simp add: backoff_ms_def pow2_u64_def)
qed

lemma backoff_wrapping: "backoff_ms False retry = Ok (min (100 * 2 ^ unat retry) 30000)"
  by (simp add: backoff_ms_def pow2_u64_def mul_u64_def)

section \<open>The reconnection schedule\<close>

text \<open>
  The laws of the task that both egresses satisfy, with the session left open: what
  follows a failed and a successful \<^verbatim>\<open>connect\<close>, the end of the sleep, the end of the tunnel,
  and a cancellation in each state, which alone makes the task return. Nothing reacts to a
  cancellation while connecting.
\<close>

locale reconnecting =
  fixes step :: "bool \<Rightarrow> ('t, 'e) task_event \<Rightarrow> 's phase \<Rightarrow> ('s phase \<times> 'a task_act list) option"
    and new_session :: "'t \<Rightarrow> 's"
    and closing :: "'s \<Rightarrow> 'a list"
  assumes connect_failed: "step checks (ConnectReturned (Err e)) (Connecting retry) =
      (case backoff_ms checks retry :: (u64, error) result of
         Ok ms \<Rightarrow> Some (BackingOff retry, [SleepFor ms])
       | _ \<Rightarrow> Some (TaskPanicked, []))"
    and connect_ok: "step checks (ConnectReturned (Ok t)) (Connecting retry) =
      Some (Session (new_session t), [SendState Ready])"
    and slept: "step checks SleepElapsed (BackingOff retry) =
      (case next_retry checks retry :: (u32, error) result of
         Ok r \<Rightarrow> Some (Connecting r, []) | _ \<Rightarrow> Some (TaskPanicked, []))"
    and tunnel_closed: "step checks TunnelClosed (Session s) = Some (Connecting 0, [])"
    and cancel_session: "step checks CancelSeen (Session s) =
      Some (TaskReturned, map SessionAct (closing s))"
    and cancel_backoff: "step checks CancelSeen (BackingOff retry) = Some (TaskReturned, [])"
    and cancel_connecting: "step checks CancelSeen (Connecting retry) = None"
    and returned_stuck: "step checks ev TaskReturned = None"
    and returns_cancelled: "step checks ev p = Some (TaskReturned, acts) \<Longrightarrow> ev = CancelSeen"
begin

text \<open>A task returns only because it saw its token cancelled; without that it runs or panics.\<close>

lemma run_returns_cancelled:
  "run_task (step checks) evs p = Some (TaskReturned, acts) \<Longrightarrow> p \<noteq> TaskReturned \<Longrightarrow> CancelSeen \<in> set evs"
proof (induction evs arbitrary: p acts)
  case (Cons ev evs)
  then obtain q now later where q: "step checks ev p = Some (q, now)"
    "run_task (step checks) evs q = Some (TaskReturned, later)"
    by (auto split: option.splits)
  show ?case
  proof (cases "q = TaskReturned")
    case True
    then show ?thesis using q(1) returns_cancelled by fastforce
  next
    case False
    then show ?thesis using Cons.IH [OF q(2)] by simp
  qed
qed simp

text \<open>One failed attempt and the sleep after it.\<close>

abbreviation failure :: "('t, 'e) task_event list" where
  "failure \<equiv> [ConnectReturned (Err ClosedTunnel), SleepElapsed]"

lemma one_failure:
  assumes "unat retry < 62" and "checks \<longrightarrow> unat retry \<le> 57"
  shows "\<exists>ms. run_task (step checks) [ConnectReturned (Err e), SleepElapsed] (Connecting retry) =
    Some (Connecting (retry + 1), [SleepFor ms]) \<and> unat ms = documented_ms (unat retry)"
proof -
  let ?ms = "min (100 * 2 ^ unat retry) 30000 :: u64"
  have "(backoff_ms checks retry :: (u64, error) result) = Ok ?ms"
    using assms(2) by (cases checks) (simp_all add: backoff_checked backoff_wrapping)
  moreover have "unat ?ms = documented_ms (unat retry)" using assms(1) unat_delay [of "unat retry"] by simp
  ultimately show ?thesis
    using assms(1) by (simp add: connect_failed slept next_retry_def)
qed

text \<open>
  Any run of \<open>n\<close> failures sleeps as documented before each new attempt, as long as fewer
  than 62 attempts in a row fail (58 with overflow checks).
\<close>

lemma schedule:
  assumes "unat retry + length errs \<le> (if checks then 58 else 62)"
  shows "\<exists>delays. run_task (step checks)
      (concat (map (\<lambda>e. [ConnectReturned (Err e), SleepElapsed]) errs)) (Connecting retry) =
      Some (Connecting (retry + of_nat (length errs)), map SleepFor delays) \<and>
    map unat delays = map documented_ms [unat retry..<unat retry + length errs]"
  using assms
proof (induction errs arbitrary: retry)
  case Nil
  then show ?case by simp
next
  case (Cons e errs)
  then have small: "unat retry < 62" "checks \<longrightarrow> unat retry \<le> 57" by (auto split: if_splits)
  have up: "unat (retry + 1) = unat retry + 1" using small(1) by (simp add: unat_word_ariths)
  obtain ms where ms: "run_task (step checks) [ConnectReturned (Err e), SleepElapsed] (Connecting retry) =
      Some (Connecting (retry + 1), [SleepFor ms])" "unat ms = documented_ms (unat retry)"
    using one_failure [OF small] by blast
  obtain delays where d: "run_task (step checks)
      (concat (map (\<lambda>e. [ConnectReturned (Err e), SleepElapsed]) errs)) (Connecting (retry + 1)) =
      Some (Connecting (retry + 1 + of_nat (length errs)), map SleepFor delays)"
    "map unat delays = map documented_ms [unat (retry + 1)..<unat (retry + 1) + length errs]"
    using Cons.IH [of "retry + 1"] Cons.prems up by auto
  have "run_task (step checks) ([ConnectReturned (Err e), SleepElapsed] @
      concat (map (\<lambda>e. [ConnectReturned (Err e), SleepElapsed]) errs)) (Connecting retry) =
      Some (Connecting (retry + 1 + of_nat (length errs)), map SleepFor (ms # delays))"
    unfolding run_task_append using ms(1) d(1) by simp
  moreover have "map unat (ms # delays) = map documented_ms [unat retry..<unat retry + length (e # errs)]"
    using ms(2) d(2) by (simp add: up upt_conv_Cons del: upt_Suc)
  moreover have "retry + 1 + of_nat (length errs) = retry + of_nat (length (e # errs))"
    by (simp add: algebra_simps)
  ultimately show ?case by (intro exI [of _ "ms # delays"]) (simp only: list.map concat.simps)
qed

text \<open>In a release build the 63rd failure in a row and every later one waits 0 ms.\<close>

lemma no_delay:
  assumes "62 \<le> unat retry"
  shows "run_task (step False) [ConnectReturned (Err e), SleepElapsed] (Connecting retry) =
    Some (Connecting (retry + 1), [SleepFor 0])"
  using pow_from_62 [OF assms] by (simp add: connect_failed slept next_retry_def backoff_wrapping)

text \<open>After a tunnel the schedule starts again from 100 ms, whatever came before.\<close>

lemma after_tunnel:
  "run_task (step checks) [ConnectReturned (Ok t), TunnelClosed] (Connecting retry) =
    Some (Connecting 0, [SendState Ready])"
  by (simp add: connect_ok tunnel_closed)

end

section \<open>Overlapping calls\<close>

text \<open>
  \<^verbatim>\<open>start\<close> runs under a lock and without waiting, so it is one step. \<^verbatim>\<open>stop\<close> is two: it takes
  the process and cancels its token, waits for the task without the lock, and then
  publishes \<open>Stopped\<close>, unless joining the task reports that it panicked: then \<^verbatim>\<open>?\<close> returns the
  error and nothing is published. Between the two other calls may run. A task ends because
  it saw its token cancelled (\<open>return\<close>) or because it panicked, cancelled or not (\<open>panic\<close>). A
  process is named by a number that stands for its token and its task; \<open>failed\<close> has the
  processes whose task panicked. The field \<open>overlapped\<close> records that a start ran while a stop
  was waiting, and \<open>unpublished\<close> that the stop that ended last reported an error.
\<close>

type_synonym process = nat

record 's egress_sys =
  egress :: 's
  live :: "process set"
  cancelled :: "process set"
  stopping :: "process set"
  failed :: "process set"
  overlapped :: bool
  unpublished :: bool

definition egress_init :: "'s \<Rightarrow> 's egress_sys" where
  "egress_init s = \<lparr>egress = s, live = {}, cancelled = {}, stopping = {}, failed = {}, overlapped = False,
     unpublished = False\<rparr>"

inductive egress_step ::
    "(process \<Rightarrow> 's \<Rightarrow> (unit, error) result \<times> 's) \<Rightarrow> ('s \<Rightarrow> process option \<times> 's) \<Rightarrow> ('s \<Rightarrow> 's) \<Rightarrow> ('s \<Rightarrow> 's) \<Rightarrow>
      's egress_sys \<Rightarrow> 's egress_sys \<Rightarrow> bool"
  for start take_process publish_stopped publish_ready where
  start: "start k (egress a) = (Ok (), s') \<Longrightarrow> k \<notin> live a \<union> cancelled a \<union> stopping a \<union> failed a \<Longrightarrow>
    egress_step start take_process publish_stopped publish_ready a
      (a\<lparr>egress := s', live := insert k (live a), overlapped := overlapped a \<or> stopping a \<noteq> {}\<rparr>)"
| take: "take_process (egress a) = (Some k, s') \<Longrightarrow>
    egress_step start take_process publish_stopped publish_ready a
      (a\<lparr>egress := s', cancelled := insert k (cancelled a), stopping := insert k (stopping a)\<rparr>)"
| ready: "k \<in> live a \<Longrightarrow>
    egress_step start take_process publish_stopped publish_ready a
      (a\<lparr>egress := publish_ready (egress a)\<rparr>)"
| return: "k \<in> live a \<Longrightarrow> k \<in> cancelled a \<Longrightarrow>
    egress_step start take_process publish_stopped publish_ready a (a\<lparr>live := live a - {k}\<rparr>)"
| panic: "k \<in> live a \<Longrightarrow>
    egress_step start take_process publish_stopped publish_ready a
      (a\<lparr>live := live a - {k}, failed := insert k (failed a)\<rparr>)"
| stopped: "k \<in> stopping a \<Longrightarrow> k \<notin> live a \<Longrightarrow> k \<notin> failed a \<Longrightarrow>
    egress_step start take_process publish_stopped publish_ready a
      (a\<lparr>egress := publish_stopped (egress a), stopping := stopping a - {k}, unpublished := False\<rparr>)"
| join_failed: "k \<in> stopping a \<Longrightarrow> k \<in> failed a \<Longrightarrow>
    egress_step start take_process publish_stopped publish_ready a
      (a\<lparr>stopping := stopping a - {k}, unpublished := True\<rparr>)"

inductive egress_reachable ::
    "(process \<Rightarrow> 's \<Rightarrow> (unit, error) result \<times> 's) \<Rightarrow> ('s \<Rightarrow> process option \<times> 's) \<Rightarrow> ('s \<Rightarrow> 's) \<Rightarrow> ('s \<Rightarrow> 's) \<Rightarrow>
      's \<Rightarrow> 's egress_sys \<Rightarrow> bool"
  for start take_process publish_stopped publish_ready s where
  init: "egress_reachable start take_process publish_stopped publish_ready s (egress_init s)"
| step: "egress_reachable start take_process publish_stopped publish_ready s a \<Longrightarrow>
    egress_step start take_process publish_stopped publish_ready a b \<Longrightarrow>
    egress_reachable start take_process publish_stopped publish_ready s b"

locale egress_contract =
  fixes process_of :: "'s \<Rightarrow> process option"
    and state_of :: "'s \<Rightarrow> egress_state"
    and start :: "process \<Rightarrow> 's \<Rightarrow> (unit, error) result \<times> 's"
    and take_process :: "'s \<Rightarrow> process option \<times> 's"
    and publish_stopped :: "'s \<Rightarrow> 's"
    and publish_ready :: "'s \<Rightarrow> 's"
  assumes start_idle: "process_of s = None \<Longrightarrow>
      fst (start k s) = Ok () \<and> process_of (snd (start k s)) = Some k \<and> state_of (snd (start k s)) = Starting"
    and start_refused: "process_of s \<noteq> None \<Longrightarrow> start k s = (Err EgressAlreadyStarted, s)"
    and take_process: "fst (take_process s) = process_of s"
      "process_of (snd (take_process s)) = None" "state_of (snd (take_process s)) = state_of s"
    and publish_stopped: "process_of (publish_stopped s) = process_of s"
      "state_of (publish_stopped s) = Stopped"
    and publish_ready: "process_of (publish_ready s) = process_of s" "state_of (publish_ready s) = Ready"
begin

text \<open>
  The invariant: the task of the current process is not cancelled, and it runs or has
  panicked; every other running task is being stopped, and a panicked task does not run. As
  long as no start ran during a stop, the published state is \<open>Stopped\<close> exactly when there is
  neither a process nor a stop under way and the last stop did not report an error.
\<close>

definition egress_inv :: "'s egress_sys \<Rightarrow> bool" where
  "egress_inv a \<longleftrightarrow>
     (\<forall>k. process_of (egress a) = Some k \<longrightarrow> (k \<in> live a \<or> k \<in> failed a) \<and> k \<notin> cancelled a) \<and>
     (\<forall>k \<in> live a. process_of (egress a) = Some k \<or> k \<in> stopping a) \<and>
     stopping a \<subseteq> cancelled a \<and> live a \<inter> failed a = {} \<and> (unpublished a \<longrightarrow> failed a \<noteq> {}) \<and>
     (\<not> overlapped a \<longrightarrow>
        (\<exists>k. stopping a \<subseteq> {k}) \<and> (process_of (egress a) \<noteq> None \<longrightarrow> stopping a = {}) \<and>
        (process_of (egress a) \<noteq> None \<or> stopping a \<noteq> {} \<longrightarrow> state_of (egress a) \<noteq> Stopped) \<and>
        (process_of (egress a) = None \<and> stopping a = {} \<longrightarrow>
          (state_of (egress a) = Stopped \<longleftrightarrow> \<not> unpublished a)))"

lemma egress_inv_init:
  "process_of s = None \<Longrightarrow> state_of s = Stopped \<Longrightarrow> egress_inv (egress_init s)"
  by (simp add: egress_inv_def egress_init_def)

lemma egress_inv_step:
  "egress_step start take_process publish_stopped publish_ready a b \<Longrightarrow> egress_inv a \<Longrightarrow> egress_inv b"
proof (induction rule: egress_step.induct)
  case (start k a s')
  then have "process_of (egress a) = None" using start_refused [of "egress a" k] by fastforce
  then have "process_of s' = Some k" "state_of s' = Starting" "process_of (egress a) = None"
    using start start_idle [of "egress a" k] by simp_all
  with start(2,3) show ?case unfolding egress_inv_def by auto
next
  case (take a k s')
  then have "process_of s' = None" "state_of s' = state_of (egress a)" "process_of (egress a) = Some k"
    using take_process [of "egress a"] by simp_all
  with take(2) show ?case unfolding egress_inv_def by auto
next
  case (ready k a)
  then show ?case by (auto simp: egress_inv_def publish_ready)
next
  case (return k a)
  then show ?case by (auto simp: egress_inv_def)
next
  case (panic k a)
  then show ?case by (auto simp: egress_inv_def)
next
  case (stopped k a)
  then have "\<not> overlapped a \<Longrightarrow> stopping a = {k}" by (auto simp: egress_inv_def subset_singleton_iff)
  with stopped show ?case by (auto simp: egress_inv_def publish_stopped)
next
  case (join_failed k a)
  then have "\<not> overlapped a \<Longrightarrow> stopping a = {k}" by (auto simp: egress_inv_def subset_singleton_iff)
  with join_failed show ?case by (auto simp: egress_inv_def)
qed

lemma egress_reachable_inv:
  assumes "egress_reachable start take_process publish_stopped publish_ready s a"
    and "process_of s = None" and "state_of s = Stopped"
  shows "egress_inv a"
  using assms by (induction rule: egress_reachable.induct) (auto intro: egress_inv_init egress_inv_step)

text \<open>
  At most one task runs that nobody has asked to stop; it is that of the current process,
  which lacks its task only after a panic.
\<close>

lemma one_uncancelled_task:
  assumes "egress_reachable start take_process publish_stopped publish_ready s a"
    and "process_of s = None" and "state_of s = Stopped"
  shows "live a - cancelled a = set_option (process_of (egress a)) - failed a"
  using egress_reachable_inv [OF assms] by (fastforce simp: egress_inv_def)

lemma stopped_iff_idle:
  assumes "egress_reachable start take_process publish_stopped publish_ready s a"
    and "process_of s = None" and "state_of s = Stopped" and "\<not> overlapped a"
  shows "state_of (egress a) = Stopped \<longleftrightarrow>
    live a = {} \<and> stopping a = {} \<and> process_of (egress a) = None \<and> \<not> unpublished a"
  using egress_reachable_inv [OF assms(1-3)] assms(4) by (fastforce simp: egress_inv_def)

lemma unpublished_failed:
  assumes "egress_reachable start take_process publish_stopped publish_ready s a"
    and "process_of s = None" and "state_of s = Stopped" and "unpublished a"
  shows "failed a \<noteq> {}"
  using egress_reachable_inv [OF assms(1-3)] assms(4) by (simp add: egress_inv_def)

end

section \<open>Properties\<close>

text \<open>
  C22. The reconnection delay for every retry count. A release build waits as documented
  (doubling from 100 ms up to 30 s) for the counts 0 to 61; from 62 on the product wraps to
  zero and the egress reconnects without any delay. A debug build panics from 58 on.
\<close>

theorem backoff_delay_exact:
  "backoff_ms False retry = Ok (if unat retry < 62 then of_nat (documented_ms (unat retry)) else 0) \<and>
   backoff_ms True retry = (if unat retry \<le> 57 then Ok (of_nat (documented_ms (unat retry))) else Panic)"
proof -
  have "min (100 * 2 ^ unat retry) 30000 =
    (if unat retry < 62 then of_nat (documented_ms (unat retry)) else (0 :: u64))"
    using arg_cong [OF unat_delay [of "unat retry"], of "of_nat :: nat \<Rightarrow> u64"] by (simp split: if_splits)
  then show ?thesis by (simp add: backoff_checked backoff_wrapping)
qed

end
