(* ===== verification/Lifecycle.thy ===== *)
theory Lifecycle
  imports Siffleux_Error
begin

text \<open>
  The start/stop contract that the ingresses, the egresses and the server share: a second
  start and a stop without a start are refused with the component's own error and change
  nothing, a start that fails leaves the component stopped, and after a stop it can be
  started again. The outcomes of the system calls a start makes are its first argument.
\<close>

datatype ('b, 'e) call = Start 'b | Stop 'e

fun run_calls ::
    "('b \<Rightarrow> 's \<Rightarrow> (unit, error) result \<times> 's) \<Rightarrow> ('e \<Rightarrow> 's \<Rightarrow> (unit, error) result \<times> 's) \<Rightarrow>
      ('b, 'e) call list \<Rightarrow> 's \<Rightarrow> (unit, error) result list \<times> 's" where
  "run_calls start stop [] s = ([], s)"
| "run_calls start stop (Start b # cs) s =
     (let (r, s') = start b s; (rs, s'') = run_calls start stop cs s' in (r # rs, s''))"
| "run_calls start stop (Stop e # cs) s =
     (let (r, s') = stop e s; (rs, s'') = run_calls start stop cs s' in (r # rs, s''))"

text \<open>
  The abstract component: a flag. A result is accepted for a call when it is the one the
  flag calls for; \<open>spec_calls\<close> returns the final flag if every result is.
\<close>

fun spec_calls :: "error \<Rightarrow> error \<Rightarrow> ('b, 'e) call list \<Rightarrow> (unit, error) result list \<Rightarrow> bool \<Rightarrow> bool option" where
  "spec_calls already idle [] [] on = Some on"
| "spec_calls already idle (Start b # cs) (r # rs) on =
     (if on then (if r = Err already then spec_calls already idle cs rs True else None)
      else if r = Ok () then spec_calls already idle cs rs True
      else if r = Err already then None
      else spec_calls already idle cs rs False)"
| "spec_calls already idle (Stop e # cs) (r # rs) on =
     (if on then (if r = Err idle then None else spec_calls already idle cs rs False)
      else (if r = Err idle then spec_calls already idle cs rs False else None))"
| "spec_calls already idle _ _ on = None"

locale lifecycle =
  fixes running :: "'s \<Rightarrow> bool"
    and start :: "'b \<Rightarrow> 's \<Rightarrow> (unit, error) result \<times> 's"
    and stop :: "'e \<Rightarrow> 's \<Rightarrow> (unit, error) result \<times> 's"
    and already :: error
    and idle :: error
    and start_env_ok :: "'b \<Rightarrow> bool"
  assumes start_running: "running s \<Longrightarrow> start b s = (Err already, s)"
    and start_ok: "\<not> running s \<Longrightarrow> start_env_ok b \<Longrightarrow> fst (start b s) = Ok () \<Longrightarrow> running (snd (start b s))"
    and start_fails: "\<not> running s \<Longrightarrow> start_env_ok b \<Longrightarrow> fst (start b s) \<noteq> Ok () \<Longrightarrow>
      \<not> running (snd (start b s)) \<and> fst (start b s) \<noteq> Err already"
    and stop_running: "running s \<Longrightarrow> \<not> running (snd (stop e s)) \<and> fst (stop e s) \<noteq> Err idle"
    and stop_idle: "\<not> running s \<Longrightarrow> stop e s = (Err idle, s)"
begin

fun env_ok :: "('b, 'e) call \<Rightarrow> bool" where
  "env_ok (Start b) = start_env_ok b"
| "env_ok (Stop e) = True"

text \<open>Every sequence of calls behaves like the flag: a functional refinement.\<close>

lemma run_calls_refines:
  assumes "list_all env_ok cs"
  shows "spec_calls already idle cs (fst (run_calls start stop cs s)) (running s) =
    Some (running (snd (run_calls start stop cs s)))"
  using assms
proof (induction cs arbitrary: s)
  case Nil
  then show ?case by simp
next
  case (Cons c cs)
  show ?case
  proof (cases c)
    case (Start b)
    obtain r s' where rs': "start b s = (r, s')" by (meson surj_pair)
    have IH: "spec_calls already idle cs (fst (run_calls start stop cs s')) (running s') =
      Some (running (snd (run_calls start stop cs s')))"
      using Cons by simp
    have "running s \<Longrightarrow> r = Err already \<and> s' = s"
      and "\<not> running s \<Longrightarrow> r = Ok () \<Longrightarrow> running s'"
      and "\<not> running s \<Longrightarrow> r \<noteq> Ok () \<Longrightarrow> \<not> running s' \<and> r \<noteq> Err already"
      using start_running [of s b] start_ok [of s b] start_fails [of s b] rs' Cons.prems Start by auto
    then show ?thesis
      using IH Start rs' by (cases "running s"; cases "r = Ok ()") (simp_all add: case_prod_beta)
  next
    case (Stop e)
    obtain r s' where rs': "stop e s = (r, s')" by (meson surj_pair)
    have IH: "spec_calls already idle cs (fst (run_calls start stop cs s')) (running s') =
      Some (running (snd (run_calls start stop cs s')))"
      using Cons by simp
    have "running s \<Longrightarrow> \<not> running s' \<and> r \<noteq> Err idle" and "\<not> running s \<Longrightarrow> r = Err idle \<and> s' = s"
      using stop_running [of s e] stop_idle [of s e] rs' by auto
    then show ?thesis
      using IH Stop rs' by (cases "running s") (simp_all add: case_prod_beta)
  qed
qed

end

end
