(* ===== verification/Tcp_Egress.thy ===== *)
theory Tcp_Egress
  imports Tunnel Frames_V1 Egress_Process Lifecycle
begin

text \<open>
  \<^verbatim>\<open>client/egress/tcp_egress.rs\<close>. \<open>tcp_tunnel_step\<close> is the task that \<^verbatim>\<open>start_tunnel\<close> spawns, one
  step per event; \<open>tcp_egress_handle_stream\<close> is the task spawned for each stream the server
  opens, up to the call of the byte pump. What \<^verbatim>\<open>connect\<close> returns is an event; the
  authentication object that provides it is a field of a type of its own.
\<close>

record 'auth tcp_egress =
  te_id :: egress_id
  te_ingress_id :: ingress_id
  te_authentication :: 'auth
  te_target_addr :: socket_addr
  te_process :: "process option"
  te_state :: egress_state

section \<open>Operations\<close>

definition tcp_egress_id :: "'auth tcp_egress \<Rightarrow> egress_id" where
  [simp]: "tcp_egress_id self = te_id self"

definition tcp_egress_ingress_id :: "'auth tcp_egress \<Rightarrow> ingress_id" where
  [simp]: "tcp_egress_ingress_id self = te_ingress_id self"

definition tcp_egress_state :: "'auth tcp_egress \<Rightarrow> egress_state" where
  [simp]: "tcp_egress_state self = te_state self"

definition tcp_egress_new ::
    "egress_id \<Rightarrow> 'auth \<Rightarrow> ingress_id \<Rightarrow> socket_addr \<Rightarrow> 'auth tcp_egress" where
  "tcp_egress_new i authentication ingress target_addr =
     \<lparr>te_id = i, te_ingress_id = ingress, te_authentication = authentication,
      te_target_addr = target_addr, te_process = None, te_state = Stopped\<rparr>"

definition tcp_publish :: "egress_state \<Rightarrow> 'auth tcp_egress \<Rightarrow> 'auth tcp_egress" where
  "tcp_publish st s = s\<lparr>te_state := st\<rparr>"

definition tcp_egress_start ::
    "process \<Rightarrow> 'auth tcp_egress \<Rightarrow> (unit, error) result \<times> 'auth tcp_egress" where
  "tcp_egress_start k s =
     (if te_process s \<noteq> None then (Err EgressAlreadyStarted, s)
      else (Ok (), (tcp_publish Starting s)\<lparr>te_process := Some k\<rparr>))"

definition tcp_take_process :: "'auth tcp_egress \<Rightarrow> process option \<times> 'auth tcp_egress" where
  "tcp_take_process s = (te_process s, s\<lparr>te_process := None\<rparr>)"

text \<open>A whole \<^verbatim>\<open>stop\<close>, given what joining the task returned: a join error leaves the state as it was.\<close>

definition tcp_egress_stop ::
    "(unit, string) result \<Rightarrow> 'auth tcp_egress \<Rightarrow> (unit, error) result \<times> 'auth tcp_egress" where
  "tcp_egress_stop joined s =
     (case tcp_take_process s of
        (Some k, s) \<Rightarrow>
          (case joined of
             Ok _ \<Rightarrow> (Ok (), tcp_publish Stopped s)
           | Err e \<Rightarrow> (Err (from_join_error e), s)
           | Panic \<Rightarrow> (Panic, s))
      | (None, s) \<Rightarrow> (Err EgressNotStarted, s))"

subsection \<open>The tunnel task\<close>

datatype tcp_egress_act = HandleStream tunnel_stream | CloseTunnel quic_call

fun tcp_tunnel_step ::
    "bool \<Rightarrow> ('u tunnel, (tunnel_stream, error) result) task_event \<Rightarrow> 'u tunnel phase \<Rightarrow>
      ('u tunnel phase \<times> tcp_egress_act task_act list) option" where
  "tcp_tunnel_step checks (ConnectReturned r) (Connecting retry) =
     (case r of
        Ok tunnel \<Rightarrow> Some (Session tunnel, [SendState Ready])
      | Err _ \<Rightarrow>
          (case backoff_ms checks retry :: (u64, error) result of
             Ok duration \<Rightarrow> Some (BackingOff retry, [SleepFor duration])
           | _ \<Rightarrow> Some (TaskPanicked, []))
      | Panic \<Rightarrow> Some (TaskPanicked, []))"
| "tcp_tunnel_step checks (SessionEvent accept_stream_result) (Session tunnel) =
     (case accept_stream_result of
        Ok tunnel_stream \<Rightarrow> Some (Session tunnel, [SessionAct (HandleStream tunnel_stream)])
      | Err e \<Rightarrow> Some (Session tunnel, [])
      | Panic \<Rightarrow> Some (TaskPanicked, []))"
| "tcp_tunnel_step checks TunnelClosed (Session tunnel) = Some (Connecting 0, [])"
| "tcp_tunnel_step checks CancelSeen (Session tunnel) =
     Some (TaskReturned, map (\<lambda>c. SessionAct (CloseTunnel c)) (tunnel_close tunnel))"
| "tcp_tunnel_step checks SleepElapsed (BackingOff retry) =
     (case next_retry checks retry :: (u32, error) result of
        Ok r \<Rightarrow> Some (Connecting r, []) | _ \<Rightarrow> Some (TaskPanicked, []))"
| "tcp_tunnel_step checks CancelSeen (BackingOff retry) = Some (TaskReturned, [])"
| "tcp_tunnel_step checks _ _ = None"

subsection \<open>One stream\<close>

text \<open>
  The results of the system calls of one attempt to make a socket, in order (create, reuse
  address, reuse port, linger, bind), and the socket made.
\<close>

definition get_tcp_socket :: "(unit, io_error) result list \<Rightarrow> nat \<Rightarrow> (nat, error) result" where
  "get_tcp_socket calls socket = and_then (first_io_error calls) (\<lambda>_. Ok socket)"

fun attempt :: "('a, 'e) result list \<Rightarrow> ('a option, 'f) result" where
  "attempt [] = Ok None"
| "attempt (Ok socket # rs) = Ok (Some socket)"
| "attempt (Err e # rs) = attempt rs"
| "attempt (Panic # rs) = Panic"

datatype stream_outcome = TunnelWriteShutdown | PumpBytes nat socket_addr

record stream_env =
  socket_calls :: "nat \<Rightarrow> (unit, io_error) result list"
  tcp_connect :: "(unit, io_error) result"
  set_nodelay :: "(unit, io_error) result"
  tcp_peer_addr :: "(socket_addr, io_error) result"

definition tcp_egress_handle_stream :: "stream_env \<Rightarrow> (stream_outcome, error) result" where
  "tcp_egress_handle_stream env =
     and_then (attempt (map (\<lambda>i. get_tcp_socket (socket_calls env i) i) [0..<3])) (\<lambda>found.
     case found of
       None \<Rightarrow> Ok TunnelWriteShutdown
     | Some tcp_socket \<Rightarrow>
         (case tcp_connect env of
            Ok _ \<Rightarrow>
              and_then (unwrap (set_nodelay env)) (\<lambda>_.
              and_then (unwrap (tcp_peer_addr env)) (\<lambda>tcp_remote_addr.
              Ok (PumpBytes tcp_socket tcp_remote_addr)))
          | Err e \<Rightarrow> Ok TunnelWriteShutdown
          | Panic \<Rightarrow> Panic))"

section \<open>The contracts\<close>

lemmas tcp_egress_defs [model_defs] = tcp_egress_start_def tcp_take_process_def tcp_publish_def

lemma tcp_returns_cancelled:
  "tcp_tunnel_step checks ev p = Some (TaskReturned, acts) \<Longrightarrow> ev = CancelSeen"
  by (cases "(checks, ev, p)" rule: tcp_tunnel_step.cases) (auto split: result.splits)

interpretation tcp_task: reconnecting tcp_tunnel_step "\<lambda>t. t"
  "\<lambda>t. map CloseTunnel (tunnel_close t)"
  by unfold_locales (auto split: result.split dest: tcp_returns_cancelled)

interpretation tcp_egress_calls: egress_contract te_process te_state tcp_egress_start tcp_take_process
  "tcp_publish Stopped" "tcp_publish Ready"
  by unfold_locales (auto simp: model_defs)

interpretation tcp_egress_cycle: lifecycle "\<lambda>s. te_process s \<noteq> None" tcp_egress_start tcp_egress_stop
  EgressAlreadyStarted EgressNotStarted "\<lambda>_. True"
  by unfold_locales (auto simp: model_defs tcp_egress_stop_def from_join_error_def split: result.splits)

lemma attempt_find:
  assumes "\<forall>i \<in> set is. f i \<noteq> Panic"
  shows "attempt (map (\<lambda>i. and_then (f i) (\<lambda>_. Ok i)) is) = Ok (find (\<lambda>i. is_ok (f i)) is)"
  using assms
proof (induction "is")
  case (Cons i "is")
  then show ?case by (cases "f i") (simp_all add: is_ok_def)
qed simp

section \<open>Properties\<close>

definition sample_egress :: "unit tcp_egress" where
  "sample_egress = tcp_egress_new (EgressId [101]) () (IngressId [105]) (SocketAddrV4 [127, 0, 0, 1] 80)"

definition egress_tunnel :: "nat tunnel" where
  "egress_tunnel = \<lparr>tunnel_id = 1, tunnel_server_id = ServerId [115], tunnel_connection = 11,
     tunnel_byte_counter = 0\<rparr>"

text \<open>
  C23. When a tunnel ends the egress reconnects at once, and after each failed attempt sleeps
  as documented: 100 ms after the first, doubling, at most 30 s. This holds for up to 62
  failed attempts in a row (58 in a debug build), whatever the errors and whatever the
  retry count was before the tunnel.
\<close>

theorem tcp_reconnect_schedule:
  fixes t :: "'u tunnel"
  assumes "length errs \<le> (if checks then 58 else 62)"
  shows "\<exists>delays. run_task (tcp_tunnel_step checks) ([ConnectReturned (Ok t), TunnelClosed] @
      concat (map (\<lambda>e. [ConnectReturned (Err e), SleepElapsed]) errs)) (Connecting retry) =
      Some (Connecting (of_nat (length errs)), SendState Ready # map SleepFor delays) \<and>
    map unat delays = map documented_ms [0..<length errs]"
proof -
  obtain delays where d: "run_task (tcp_tunnel_step checks :: ('u tunnel, _) task_event \<Rightarrow> _)
      (concat (map (\<lambda>e. [ConnectReturned (Err e), SleepElapsed]) errs)) (Connecting 0) =
      Some (Connecting (of_nat (length errs)), map SleepFor delays)"
    "map unat delays = map documented_ms [0..<length errs]"
    using tcp_task.schedule [of 0 errs checks] assms by auto
  then show ?thesis
    unfolding run_task_append tcp_task.after_tunnel by auto
qed

theorem tcp_reconnect_schedule_witness:
  "\<exists>delays. run_task (tcp_tunnel_step False) [ConnectReturned (Ok egress_tunnel), TunnelClosed,
      ConnectReturned (Err ClosedTunnel), SleepElapsed, ConnectReturned (Err ClosedTunnel), SleepElapsed]
      (Connecting 5) = Some (Connecting 2, SendState Ready # map SleepFor delays) \<and>
    map unat delays = [100, 200]"
proof -
  have upt: "[0..<2] = [0, Suc 0]" by (simp add: upt_rec)
  have "\<exists>delays. run_task (tcp_tunnel_step False) ([ConnectReturned (Ok egress_tunnel), TunnelClosed] @
      concat (map (\<lambda>e. [ConnectReturned (Err e), SleepElapsed]) [ClosedTunnel, ClosedTunnel])) (Connecting 5) =
      Some (Connecting (of_nat (length [ClosedTunnel, ClosedTunnel])), SendState Ready # map SleepFor delays) \<and>
    map unat delays = map documented_ms [0..<length [ClosedTunnel, ClosedTunnel]]"
    by (rule tcp_reconnect_schedule) simp
  then show ?thesis by (simp add: upt documented_ms_def)
qed


lemmas egress_stepI = egress_step.start egress_step.take egress_step.ready egress_step.return
  egress_step.panic egress_step.stopped egress_step.join_failed

text \<open>A start of process 1, and its task reporting that the tunnel is up.\<close>

lemma tcp_started_reachable:
  "egress_reachable tcp_egress_start tcp_take_process (tcp_publish Stopped) (tcp_publish Ready) sample_egress
    \<lparr>egress = sample_egress\<lparr>te_process := Some 1, te_state := Starting\<rparr>, live = {1}, cancelled = {},
     stopping = {}, failed = {}, overlapped = False, unpublished = False\<rparr>"
proof -
  let ?R = "egress_reachable tcp_egress_start tcp_take_process (tcp_publish Stopped) (tcp_publish Ready) sample_egress"
  have "?R (egress_init sample_egress)" by (rule egress_reachable.init)
  from egress_reachable.step [OF this egress_step.start [where k = 1]]
  show ?thesis by (simp add: egress_init_def tcp_egress_defs sample_egress_def tcp_egress_new_def)
qed

lemma tcp_ready_reachable:
  "egress_reachable tcp_egress_start tcp_take_process (tcp_publish Stopped) (tcp_publish Ready) sample_egress
    \<lparr>egress = sample_egress\<lparr>te_process := Some 1, te_state := Ready\<rparr>, live = {1}, cancelled = {},
     stopping = {}, failed = {}, overlapped = False, unpublished = False\<rparr>"
  using egress_reachable.step [OF tcp_started_reachable egress_step.ready [where k = 1]] by (simp add: tcp_egress_defs)


text \<open>
  \<^verbatim>\<open>tunnel_task.await?\<close> in \<^verbatim>\<open>stop\<close>: after the task has panicked, a stop returns the join error
  before it publishes, and the egress stays \<open>Ready\<close> for its observers although it holds no
  process and nothing runs.
\<close>

lemma tcp_egress_ready_after_panic:
  "\<exists>a. egress_reachable tcp_egress_start tcp_take_process (tcp_publish Stopped) (tcp_publish Ready)
      sample_egress a \<and>
    te_state (egress a) = Ready \<and> te_process (egress a) = None \<and> live a = {} \<and> stopping a = {} \<and> \<not> overlapped a"
proof -
  let ?R = "egress_reachable tcp_egress_start tcp_take_process (tcp_publish Stopped) (tcp_publish Ready) sample_egress"
  note step = egress_reachable.step
  from step [OF tcp_ready_reachable egress_step.panic [where k = 1]]
  have "?R \<lparr>egress = sample_egress\<lparr>te_process := Some 1, te_state := Ready\<rparr>, live = {},
      cancelled = {}, stopping = {}, failed = {1}, overlapped = False, unpublished = False\<rparr>"
    by simp
  from step [OF this egress_step.take [where k = 1]]
  have "?R \<lparr>egress = sample_egress\<lparr>te_process := None, te_state := Ready\<rparr>, live = {},
      cancelled = {1}, stopping = {1}, failed = {1}, overlapped = False, unpublished = False\<rparr>"
    by (simp add: tcp_egress_defs sample_egress_def tcp_egress_new_def)
  from step [OF this egress_step.join_failed [where k = 1]]
  have "?R \<lparr>egress = sample_egress\<lparr>te_process := None, te_state := Ready\<rparr>, live = {},
      cancelled = {1}, stopping = {}, failed = {1}, overlapped = False, unpublished = True\<rparr>"
    by simp
  then show ?thesis by (intro exI conjI) (assumption, simp_all)
qed

text \<open>
  \<^verbatim>\<open>stop\<close> does not hold the lock that \<^verbatim>\<open>start\<close> takes: a start while a stop waits for its
  task succeeds, and the stop then publishes \<open>Stopped\<close> although the new process runs, with
  no call under way any more.
\<close>

lemma tcp_egress_stopped_while_running:
  "\<exists>a. egress_reachable tcp_egress_start tcp_take_process (tcp_publish Stopped) (tcp_publish Ready)
      sample_egress a \<and>
    te_state (egress a) = Stopped \<and> te_process (egress a) = Some 2 \<and> live a = {2} \<and>
    2 \<notin> cancelled a \<and> stopping a = {}"
proof -
  let ?R = "egress_reachable tcp_egress_start tcp_take_process (tcp_publish Stopped) (tcp_publish Ready) sample_egress"
  note step = egress_reachable.step
  from step [OF tcp_started_reachable egress_step.take [where k = 1]]
  have "?R \<lparr>egress = sample_egress\<lparr>te_process := None, te_state := Starting\<rparr>, live = {1},
      cancelled = {1}, stopping = {1}, failed = {}, overlapped = False, unpublished = False\<rparr>"
    by (simp add: tcp_egress_defs sample_egress_def tcp_egress_new_def)
  from step [OF this egress_step.start [where k = 2]]
  have "?R \<lparr>egress = sample_egress\<lparr>te_process := Some 2, te_state := Starting\<rparr>, live = {2, 1},
      cancelled = {1}, stopping = {1}, failed = {}, overlapped = True, unpublished = False\<rparr>"
    by (simp add: tcp_egress_defs sample_egress_def tcp_egress_new_def)
  from step [OF this egress_step.return [where k = 1]]
  have "?R \<lparr>egress = sample_egress\<lparr>te_process := Some 2, te_state := Starting\<rparr>, live = {2},
      cancelled = {1}, stopping = {1}, failed = {}, overlapped = True, unpublished = False\<rparr>"
    by (simp add: insert_Diff_if)
  from step [OF this egress_step.stopped [where k = 1]]
  have "?R \<lparr>egress = sample_egress\<lparr>te_process := Some 2, te_state := Stopped\<rparr>, live = {2},
      cancelled = {1}, stopping = {}, failed = {}, overlapped = True, unpublished = False\<rparr>"
    by (simp add: tcp_egress_defs)
  then show ?thesis by (intro exI conjI) (assumption, simp_all)
qed

text \<open>
  C35. A stream the server opened is connected to the target through the first of at most
  three sockets that can be set up; when none can, or the target refuses, the tunnel's write
  side is shut down, so that the other end sees the stream end. A connected socket whose
  options or peer address cannot be read panics.
\<close>

theorem tcp_egress_stream_outcome:
  assumes "\<forall>j < 3. first_io_error (socket_calls env j) \<noteq> Panic"
  shows "tcp_egress_handle_stream env =
    (case find (\<lambda>j. is_ok (first_io_error (socket_calls env j))) [0..<3] of
       None \<Rightarrow> Ok TunnelWriteShutdown
     | Some j \<Rightarrow>
         (case tcp_connect env of
            Ok _ \<Rightarrow> (case (set_nodelay env, tcp_peer_addr env) of
                (Ok _, Ok a) \<Rightarrow> Ok (PumpBytes j a) | _ \<Rightarrow> Panic)
          | Err e \<Rightarrow> Ok TunnelWriteShutdown
          | Panic \<Rightarrow> Panic))"
proof -
  have "\<forall>j \<in> set [0..<3]. first_io_error (socket_calls env j) \<noteq> Panic" using assms by simp
  note found = attempt_find [OF this]
  show ?thesis
    unfolding tcp_egress_handle_stream_def get_tcp_socket_def found
    by (simp add: unwrap_def and_then_def split: option.split result.split)
qed

theorem tcp_egress_stream_outcome_witness:
  "tcp_egress_handle_stream \<lparr>socket_calls = (\<lambda>j. if j = 0 then [Ok (), Err (IoOther ''in use'')] else [Ok ()]),
      tcp_connect = Ok (), set_nodelay = Ok (), tcp_peer_addr = Ok (SocketAddrV4 [127, 0, 0, 1] 80)\<rparr> =
    Ok (PumpBytes 1 (SocketAddrV4 [127, 0, 0, 1] 80))"
proof -
  have upt: "[0..<3] = [0, Suc 0, 2]" by (simp add: upt_rec)
  show ?thesis
    by (subst tcp_egress_stream_outcome) (simp_all add: upt is_ok_def)
qed

end
