(* ===== verification/Udp_Egress.thy ===== *)
theory Udp_Egress
  imports Tunnel Frames_V1 Egress_Process Lifecycle
begin

text \<open>
  \<^verbatim>\<open>client/egress/udp_egress.rs\<close>. The task that \<^verbatim>\<open>start_tunnel\<close> spawns keeps, for the current
  tunnel, a table from the origin of a datagram to the channel of a forwarder task with a
  socket of its own; a forwarder that ends after 60 s without datagrams, or that cannot open
  its socket, sends its origin on the expiry channel, and the tunnel task then drops the
  entry. \<open>udp_session\<close> holds the table, the expiry channel and the forwarders with their
  channels; a step of the session is one of the tunnel task or one of a forwarder.
\<close>

record 'auth udp_egress =
  ue_id :: egress_id
  ue_ingress_id :: ingress_id
  ue_authentication :: 'auth
  ue_target_addr :: socket_addr
  ue_process :: "process option"
  ue_state :: egress_state

definition MAX_MESSAGES_RECEIVED :: nat where "MAX_MESSAGES_RECEIVED = 128"

section \<open>Operations\<close>

definition udp_egress_id :: "'auth udp_egress \<Rightarrow> egress_id" where
  [simp]: "udp_egress_id self = ue_id self"

definition udp_egress_ingress_id :: "'auth udp_egress \<Rightarrow> ingress_id" where
  [simp]: "udp_egress_ingress_id self = ue_ingress_id self"

definition udp_egress_state :: "'auth udp_egress \<Rightarrow> egress_state" where
  [simp]: "udp_egress_state self = ue_state self"

definition udp_egress_new ::
    "egress_id \<Rightarrow> 'auth \<Rightarrow> ingress_id \<Rightarrow> socket_addr \<Rightarrow> 'auth udp_egress" where
  "udp_egress_new i authentication ingress target_addr =
     \<lparr>ue_id = i, ue_ingress_id = ingress, ue_authentication = authentication,
      ue_target_addr = target_addr, ue_process = None, ue_state = Stopped\<rparr>"

definition udp_publish :: "egress_state \<Rightarrow> 'auth udp_egress \<Rightarrow> 'auth udp_egress" where
  "udp_publish st s = s\<lparr>ue_state := st\<rparr>"

definition udp_egress_start ::
    "process \<Rightarrow> 'auth udp_egress \<Rightarrow> (unit, error) result \<times> 'auth udp_egress" where
  "udp_egress_start k s =
     (if ue_process s \<noteq> None then (Err EgressAlreadyStarted, s)
      else (Ok (), (udp_publish Starting s)\<lparr>ue_process := Some k\<rparr>))"

definition udp_take_process :: "'auth udp_egress \<Rightarrow> process option \<times> 'auth udp_egress" where
  "udp_take_process s = (ue_process s, s\<lparr>ue_process := None\<rparr>)"

definition udp_egress_stop ::
    "(unit, string) result \<Rightarrow> 'auth udp_egress \<Rightarrow> (unit, error) result \<times> 'auth udp_egress" where
  "udp_egress_stop joined s =
     (case udp_take_process s of
        (Some k, s) \<Rightarrow>
          (case joined of
             Ok _ \<Rightarrow> (Ok (), udp_publish Stopped s)
           | Err e \<Rightarrow> (Err (from_join_error e), s)
           | Panic \<Rightarrow> (Panic, s))
      | (None, s) \<Rightarrow> (Err EgressNotStarted, s))"

text \<open>The results of the calls that make and connect a socket, in order, and the socket.\<close>

definition get_udp_socket :: "(unit, io_error) result list \<Rightarrow> nat \<Rightarrow> (nat, error) result" where
  "get_udp_socket calls socket = and_then (first_io_error calls) (\<lambda>_. Ok socket)"

subsection \<open>The session of one tunnel\<close>

type_synonym chan = nat

datatype fw_status = OpeningSocket | Forwarding | Ended

text \<open>
  A forwarder: the messages in its channel, the messages that its socket has accepted, and
  whether it cancelled the token of the task that reads the socket.
\<close>

record forwarder =
  fw_origin :: socket_addr
  fw_queue :: "bytes list"
  fw_status :: fw_status
  fw_sent :: "bytes list"
  fw_socket_cancelled :: bool

record 'u udp_session =
  us_tunnel :: "'u tunnel"
  us_sockets :: "socket_addr \<rightharpoonup> chan"
  us_forwarders :: "chan \<rightharpoonup> forwarder"
  us_next :: chan
  us_expired :: "socket_addr list"

definition new_udp_session :: "'u tunnel \<Rightarrow> 'u udp_session" where
  "new_udp_session tunnel = \<lparr>us_tunnel = tunnel, us_sockets = Map.empty, us_forwarders = Map.empty,
     us_next = 0, us_expired = []\<rparr>"

text \<open>\<^verbatim>\<open>try_send\<close> on a bounded channel fails when it is full or its receiver is gone; the result is ignored.\<close>

definition try_send :: "bytes \<Rightarrow> forwarder \<Rightarrow> forwarder" where
  "try_send bs f =
     (if fw_status f = Ended \<or> MAX_MESSAGES_RECEIVED \<le> length (fw_queue f) then f
      else f\<lparr>fw_queue := fw_queue f @ [bs]\<rparr>)"

definition new_forwarder :: "socket_addr \<Rightarrow> forwarder" where
  "new_forwarder origin_socket_addr = \<lparr>fw_origin = origin_socket_addr, fw_queue = [],
     fw_status = OpeningSocket, fw_sent = [], fw_socket_cancelled = False\<rparr>"

definition process_datagram ::
    "bytes_crate \<Rightarrow> bytes \<Rightarrow> 'u udp_session \<Rightarrow> ('u udp_session, error) result" where
  "process_datagram B bs s =
     and_then (extract_origin_socket_addr_from_datagram B bs) (\<lambda>(origin, bs).
     case origin of
       None \<Rightarrow> Ok s
     | Some origin_socket_addr \<Rightarrow>
         (case us_sockets s origin_socket_addr of
            Some c \<Rightarrow>
              Ok (s\<lparr>us_forwarders := (us_forwarders s)(c := map_option (try_send bs) (us_forwarders s c))\<rparr>)
          | None \<Rightarrow>
              (let c = us_next s in
               Ok (s\<lparr>us_forwarders := (us_forwarders s)(c \<mapsto> try_send bs (new_forwarder origin_socket_addr)),
                     us_next := c + 1,
                     us_sockets := (us_sockets s)(origin_socket_addr \<mapsto> c)\<rparr>))))"

subsection \<open>A forwarder\<close>

text \<open>
  The events of the task spawned by \<^verbatim>\<open>pipe_tunnel_to_socket_datagram\<close>: \<^verbatim>\<open>recv_many\<close> takes
  between one and 128 of the queued messages, and returns 0 when the channel is empty and
  its sender is gone. The event has what \<^verbatim>\<open>try_send\<close> on the socket returns for each message
  taken; the task ignores it, so a message that the socket refuses (its buffer is full, or
  the target is unreachable) is lost. The result is the task's new state and what it sends
  on the expiry channel.
\<close>

datatype fw_event = SocketMade "(nat, error) result" | ReceivedMany "(nat, io_error) result list" | IdleElapsed
  | FwCancelled | FwTunnelClosed

definition accepted :: "(nat, io_error) result list \<Rightarrow> bytes list \<Rightarrow> bytes list" where
  "accepted results ms = map snd (filter (\<lambda>(r, m). is_ok r) (zip results ms))"

fun forwarder_step :: "bool \<Rightarrow> fw_event \<Rightarrow> forwarder \<Rightarrow> (forwarder \<times> socket_addr list) option" where
  "forwarder_step sender_alive (SocketMade r) f =
     (if fw_status f \<noteq> OpeningSocket then None
      else case r of
        Ok _ \<Rightarrow> Some (f\<lparr>fw_status := Forwarding\<rparr>, [])
      | _ \<Rightarrow> Some (f\<lparr>fw_status := Ended\<rparr>, [fw_origin f]))"
| "forwarder_step sender_alive (ReceivedMany sent) f =
     (let n = length sent in
      if fw_status f \<noteq> Forwarding \<or> length (fw_queue f) < n \<or> MAX_MESSAGES_RECEIVED < n then None
      else if n = 0 then
        (if sender_alive \<or> fw_queue f \<noteq> [] then None else Some (f\<lparr>fw_status := Ended\<rparr>, []))
      else Some (f\<lparr>fw_queue := drop n (fw_queue f),
                    fw_sent := fw_sent f @ accepted sent (take n (fw_queue f))\<rparr>, []))"
| "forwarder_step sender_alive IdleElapsed f =
     (if fw_status f \<noteq> Forwarding then None
      else Some (f\<lparr>fw_status := Ended, fw_socket_cancelled := True\<rparr>, [fw_origin f]))"
| "forwarder_step sender_alive FwCancelled f =
     (if fw_status f \<noteq> Forwarding then None else Some (f\<lparr>fw_status := Ended\<rparr>, []))"
| "forwarder_step sender_alive FwTunnelClosed f =
     (if fw_status f \<noteq> Forwarding then None else Some (f\<lparr>fw_status := Ended\<rparr>, [fw_origin f]))"

subsection \<open>The reader of a forwarder's socket\<close>

datatype reader_event = SocketReceived bytes nat | SocketRecvFailed | ReaderStopped

fun pipe_socket_to_tunnel_datagram ::
    "bytes_crate \<Rightarrow> 'u tunnel \<Rightarrow> socket_addr \<Rightarrow> reader_event list \<Rightarrow> quic_call list \<times> unit run" where
  "pipe_socket_to_tunnel_datagram B tunnel origin [] = ([], Running)"
| "pipe_socket_to_tunnel_datagram B tunnel origin (SocketReceived buffer len # es) =
     (case to_datagram B origin buffer len of
        Ok bs \<Rightarrow>
          (let (calls, r) = pipe_socket_to_tunnel_datagram B tunnel origin es
           in (tunnel_send_datagram tunnel bs @ calls, r))
      | _ \<Rightarrow> ([], Panicked))"
| "pipe_socket_to_tunnel_datagram B tunnel origin (SocketRecvFailed # es) =
     pipe_socket_to_tunnel_datagram B tunnel origin es"
| "pipe_socket_to_tunnel_datagram B tunnel origin (ReaderStopped # es) = ([], Returned ())"

subsection \<open>The tunnel task\<close>

datatype udp_session_event =
    DatagramReceived "(bytes, error) result"
  | ExpiredReceived
  | ForwarderMoved chan fw_event

text \<open>The branches of the inner \<^verbatim>\<open>select!\<close> that stay in the loop, and the steps of forwarders.\<close>

fun udp_session_step ::
    "bytes_crate \<Rightarrow> udp_session_event \<Rightarrow> 'u udp_session \<Rightarrow> ('u udp_session, error) result option" where
  "udp_session_step B (DatagramReceived received) s =
     (case received of
        Ok bs \<Rightarrow> Some (process_datagram B bs s)
      | Err e \<Rightarrow> Some (Ok s)
      | Panic \<Rightarrow> Some Panic)"
| "udp_session_step B ExpiredReceived s =
     (case us_expired s of
        [] \<Rightarrow> None
      | socket_addr # rest \<Rightarrow>
          Some (Ok (s\<lparr>us_expired := rest, us_sockets := (us_sockets s)(socket_addr := None)\<rparr>)))"
| "udp_session_step B (ForwarderMoved c ev) s =
     (case us_forwarders s c of
        None \<Rightarrow> None
      | Some f \<Rightarrow>
          (case forwarder_step (us_sockets s (fw_origin f) = Some c) ev f of
             None \<Rightarrow> None
           | Some (f', sent) \<Rightarrow>
               Some (Ok (s\<lparr>us_forwarders := (us_forwarders s)(c \<mapsto> f'), us_expired := us_expired s @ sent\<rparr>))))"

fun udp_tunnel_step ::
    "bytes_crate \<Rightarrow> bool \<Rightarrow> ('u tunnel, udp_session_event) task_event \<Rightarrow> 'u udp_session phase \<Rightarrow>
      ('u udp_session phase \<times> quic_call task_act list) option" where
  "udp_tunnel_step B checks (ConnectReturned r) (Connecting retry) =
     (case r of
        Ok tunnel \<Rightarrow> Some (Session (new_udp_session tunnel), [SendState Ready])
      | Err _ \<Rightarrow>
          (case backoff_ms checks retry :: (u64, error) result of
             Ok duration \<Rightarrow> Some (BackingOff retry, [SleepFor duration])
           | _ \<Rightarrow> Some (TaskPanicked, []))
      | Panic \<Rightarrow> Some (TaskPanicked, []))"
| "udp_tunnel_step B checks (SessionEvent ev) (Session s) =
     (case udp_session_step B ev s of
        None \<Rightarrow> None
      | Some (Ok s') \<Rightarrow> Some (Session s', [])
      | Some _ \<Rightarrow> Some (TaskPanicked, []))"
| "udp_tunnel_step B checks TunnelClosed (Session s) = Some (Connecting 0, [])"
| "udp_tunnel_step B checks CancelSeen (Session s) =
     Some (TaskReturned, map SessionAct (tunnel_close (us_tunnel s)))"
| "udp_tunnel_step B checks SleepElapsed (BackingOff retry) =
     (case next_retry checks retry :: (u32, error) result of
        Ok r \<Rightarrow> Some (Connecting r, []) | _ \<Rightarrow> Some (TaskPanicked, []))"
| "udp_tunnel_step B checks CancelSeen (BackingOff retry) = Some (TaskReturned, [])"
| "udp_tunnel_step B checks _ _ = None"

section \<open>The contracts\<close>

lemmas udp_egress_defs [model_defs] = udp_egress_start_def udp_take_process_def udp_publish_def

lemma udp_returns_cancelled:
  "udp_tunnel_step B checks ev p = Some (TaskReturned, acts) \<Longrightarrow> ev = CancelSeen"
  by (cases "(B, checks, ev, p)" rule: udp_tunnel_step.cases) (auto split: result.splits option.splits)

interpretation udp_task: reconnecting "udp_tunnel_step B" new_udp_session "\<lambda>s. tunnel_close (us_tunnel s)"
  for B
  by unfold_locales (auto split: result.split dest: udp_returns_cancelled)

interpretation udp_egress_calls: egress_contract ue_process ue_state udp_egress_start udp_take_process
  "udp_publish Stopped" "udp_publish Ready"
  by unfold_locales (auto simp: model_defs)

interpretation udp_egress_cycle: lifecycle "\<lambda>s. ue_process s \<noteq> None" udp_egress_start udp_egress_stop
  EgressAlreadyStarted EgressNotStarted "\<lambda>_. True"
  by unfold_locales (auto simp: model_defs udp_egress_stop_def from_join_error_def split: result.splits)

section \<open>The session invariant\<close>

text \<open>
  Every entry of the table has a forwarder for its origin, whose expiry notice is queued if
  it has ended; a notice is queued once and only for an entry whose forwarder has ended; a
  forwarder that has not ended is in the table; no channel holds more than 128 messages.
\<close>

definition table_inv ::
    "(socket_addr \<rightharpoonup> chan) \<Rightarrow> (chan \<rightharpoonup> forwarder) \<Rightarrow> chan \<Rightarrow> socket_addr list \<Rightarrow> bool" where
  "table_inv sockets fws n expired \<longleftrightarrow>
     (\<forall>a c. sockets a = Some c \<longrightarrow> (\<exists>f. fws c = Some f \<and> fw_origin f = a \<and>
        (fw_status f = Ended \<longleftrightarrow> a \<in> set expired))) \<and>
     distinct expired \<and>
     set expired \<subseteq> dom sockets \<and>
     (\<forall>c f. fws c = Some f \<longrightarrow> c < n \<and> length (fw_queue f) \<le> MAX_MESSAGES_RECEIVED \<and>
        (fw_status f \<noteq> Ended \<longrightarrow> sockets (fw_origin f) = Some c))"

abbreviation session_inv :: "'u udp_session \<Rightarrow> bool" where
  "session_inv s \<equiv> table_inv (us_sockets s) (us_forwarders s) (us_next s) (us_expired s)"

lemma table_invD:
  assumes "table_inv sockets fws n expired"
  shows "sockets a = Some c \<Longrightarrow> \<exists>f. fws c = Some f \<and> fw_origin f = a \<and> (fw_status f = Ended \<longleftrightarrow> a \<in> set expired)"
    and "distinct expired" and "b \<in> set expired \<Longrightarrow> \<exists>d. sockets b = Some d"
    and "fws d = Some g \<Longrightarrow> d < n" and "fws d = Some g \<Longrightarrow> length (fw_queue g) \<le> MAX_MESSAGES_RECEIVED"
    and "fws d = Some g \<Longrightarrow> fw_status g \<noteq> Ended \<Longrightarrow> sockets (fw_origin g) = Some d"
  using assms unfolding table_inv_def by blast+

lemma table_inv_insert:
  assumes inv: "table_inv sockets fws n expired" and "sockets a = None"
    and "fw_origin f = a" "fw_status f \<noteq> Ended" "length (fw_queue f) \<le> MAX_MESSAGES_RECEIVED"
  shows "table_inv (sockets(a \<mapsto> n)) (fws(n \<mapsto> f)) (Suc n) expired"
proof -
  have new: "a \<notin> set expired" using table_invD(3) [OF inv] assms(2) by fastforce
  have old: "d \<noteq> n" if "sockets b = Some d" for b d
    using table_invD(1) [OF inv that] table_invD(4) [OF inv] by blast
  have fresh: "fws n = None" using table_invD(4) [OF inv, of n] by (cases "fws n") auto
  show ?thesis
    unfolding table_inv_def
  proof (intro conjI allI impI)
    fix b c assume "(sockets(a \<mapsto> n)) b = Some c"
    then show "\<exists>g. (fws(n \<mapsto> f)) c = Some g \<and> fw_origin g = b \<and> (fw_status g = Ended \<longleftrightarrow> b \<in> set expired)"
      using table_invD(1) [OF inv, of b c] old [of b c] new assms(3,4) by (auto split: if_splits)
  next
    fix d g assume "(fws(n \<mapsto> f)) d = Some g"
    then show "d < Suc n" "length (fw_queue g) \<le> MAX_MESSAGES_RECEIVED"
      "fw_status g \<noteq> Ended \<Longrightarrow> (sockets(a \<mapsto> n)) (fw_origin g) = Some d"
      using table_invD(4-6) [OF inv, of d g] assms(2,3,5) by (auto split: if_splits)
  qed (use table_invD(2,3) [OF inv] in auto)
qed

text \<open>A forwarder changes but goes on, or ends and sends its notice.\<close>

lemma table_inv_update:
  assumes inv: "table_inv sockets fws n expired" and f: "fws c = Some f"
    and "fw_origin f' = fw_origin f" "fw_status f' = Ended \<longleftrightarrow> fw_status f = Ended"
    "length (fw_queue f') \<le> MAX_MESSAGES_RECEIVED"
  shows "table_inv sockets (fws(c \<mapsto> f')) n expired"
  unfolding table_inv_def
proof (intro conjI allI impI)
  fix b d assume "sockets b = Some d"
  from table_invD(1) [OF inv this]
  show "\<exists>g. (fws(c \<mapsto> f')) d = Some g \<and> fw_origin g = b \<and> (fw_status g = Ended \<longleftrightarrow> b \<in> set expired)"
    using f assms(3,4) by auto
next
  fix d g assume "(fws(c \<mapsto> f')) d = Some g"
  then show "d < n" "length (fw_queue g) \<le> MAX_MESSAGES_RECEIVED"
    "fw_status g \<noteq> Ended \<Longrightarrow> sockets (fw_origin g) = Some d"
    using table_invD(4-6) [OF inv] f assms(3-5) by (auto split: if_splits)
qed (use table_invD(2,3) [OF inv] in auto)

lemma table_inv_end:
  assumes inv: "table_inv sockets fws n expired" and f: "fws c = Some f" "fw_status f \<noteq> Ended"
    and "fw_origin f' = fw_origin f" "fw_status f' = Ended" "length (fw_queue f') \<le> MAX_MESSAGES_RECEIVED"
  shows "table_inv sockets (fws(c \<mapsto> f')) n (expired @ [fw_origin f])"
proof -
  note c = table_invD(6) [OF inv f]
  have new: "fw_origin f \<notin> set expired" using table_invD(1) [OF inv c] f by auto
  show ?thesis
    unfolding table_inv_def
  proof (intro conjI allI impI)
    fix b d assume bd: "sockets b = Some d"
    from table_invD(1) [OF inv bd]
    show "\<exists>g. (fws(c \<mapsto> f')) d = Some g \<and> fw_origin g = b \<and>
        (fw_status g = Ended \<longleftrightarrow> b \<in> set (expired @ [fw_origin f]))"
      using f c bd assms(4,5) by auto
  next
    fix d g assume "(fws(c \<mapsto> f')) d = Some g"
    then show "d < n" "length (fw_queue g) \<le> MAX_MESSAGES_RECEIVED"
      "fw_status g \<noteq> Ended \<Longrightarrow> sockets (fw_origin g) = Some d"
      using table_invD(4-6) [OF inv] f assms(4-6) by (auto split: if_splits)
  qed (use table_invD(2,3) [OF inv] new c in auto)
qed

lemma table_inv_expire:
  assumes inv: "table_inv sockets fws n (a # expired)"
  shows "table_inv (sockets(a := None)) fws n expired"
proof -
  obtain c where c: "sockets a = Some c" using table_invD(3) [OF inv, of a] by auto
  show ?thesis
    unfolding table_inv_def
  proof (intro conjI allI impI)
    fix b d assume "(sockets(a := None)) b = Some d"
    then show "\<exists>g. fws d = Some g \<and> fw_origin g = b \<and> (fw_status g = Ended \<longleftrightarrow> b \<in> set expired)"
      using table_invD(1) [OF inv, of b d] by (auto split: if_splits)
  next
    fix d g assume g: "fws d = Some g"
    then show "d < n" "length (fw_queue g) \<le> MAX_MESSAGES_RECEIVED"
      using table_invD(4,5) [OF inv] by auto
    assume "fw_status g \<noteq> Ended"
    with g show "(sockets(a := None)) (fw_origin g) = Some d"
      using table_invD(6) [OF inv g] table_invD(1) [OF inv, of "fw_origin g" d] by auto
  qed (use table_invD(2,3) [OF inv] in auto)
qed

text \<open>Cancelled forwarders send no notice: the whole task is then being stopped.\<close>

fun not_cancelled :: "udp_session_event \<Rightarrow> bool" where
  "not_cancelled (ForwarderMoved c FwCancelled) = False"
| "not_cancelled _ = True"

lemma session_inv_new: "session_inv (new_udp_session t)"
  by (simp add: table_inv_def new_udp_session_def)

lemma try_send_frame [simp]:
  "fw_origin (try_send bs f) = fw_origin f"
  "fw_status (try_send bs f) = fw_status f"
  by (simp_all add: try_send_def)

lemma try_send_bounded:
  "length (fw_queue f) \<le> MAX_MESSAGES_RECEIVED \<Longrightarrow> length (fw_queue (try_send bs f)) \<le> MAX_MESSAGES_RECEIVED"
  by (simp add: try_send_def)

lemma new_forwarder_simps [simp]:
  "fw_origin (new_forwarder a) = a" "fw_status (new_forwarder a) = OpeningSocket"
  "fw_queue (new_forwarder a) = []"
  by (simp_all add: new_forwarder_def)

lemma session_inv_process:
  assumes "session_inv s" and "process_datagram B bs s = Ok s'"
  shows "session_inv s'"
proof -
  obtain origin p where x: "extract_origin_socket_addr_from_datagram B bs = Ok (origin, p)"
    using assms(2) by (auto simp: process_datagram_def and_then_iffs)
  show ?thesis
  proof (cases origin)
    case None
    then show ?thesis using assms x by (simp add: process_datagram_def)
  next
    case (Some a)
    show ?thesis
    proof (cases "us_sockets s a")
      case None
      then have s': "s' = s\<lparr>us_forwarders := (us_forwarders s)(us_next s \<mapsto> try_send p (new_forwarder a)),
          us_next := us_next s + 1, us_sockets := (us_sockets s)(a \<mapsto> us_next s)\<rparr>"
        using assms(2) x Some by (simp add: process_datagram_def Let_def)
      have "length (fw_queue (try_send p (new_forwarder a))) \<le> MAX_MESSAGES_RECEIVED"
        by (rule try_send_bounded) simp
      with table_inv_insert [OF assms(1) None] show ?thesis by (simp add: s')
    next
      case (Some c)
      from table_invD(1) [OF assms(1) this] obtain f where f: "us_forwarders s c = Some f" by blast
      then have s': "s' = s\<lparr>us_forwarders := (us_forwarders s)(c \<mapsto> try_send p f)\<rparr>"
        using assms(2) x Some \<open>origin = Some a\<close> by (simp add: process_datagram_def)
      show ?thesis using table_inv_update [OF assms(1) f] try_send_bounded table_invD(5) [OF assms(1) f]
        by (simp add: s')
    qed
  qed
qed

lemma session_inv_step:
  assumes inv: "session_inv s" and step: "udp_session_step B ev s = Some (Ok s')" and "not_cancelled ev"
  shows "session_inv s'"
proof (cases ev)
  case (DatagramReceived r)
  then show ?thesis using session_inv_process [OF inv] inv step by (cases r) auto
next
  case ExpiredReceived
  then show ?thesis using step inv by (auto split: list.splits intro: table_inv_expire)
next
  case (ForwarderMoved c e)
  then obtain f f' sent where f: "us_forwarders s c = Some f"
    and e: "forwarder_step (us_sockets s (fw_origin f) = Some c) e f = Some (f', sent)"
    and s': "s' = s\<lparr>us_forwarders := (us_forwarders s)(c \<mapsto> f'), us_expired := us_expired s @ sent\<rparr>"
    using step by (auto split: option.splits)
  note len = table_invD(5) [OF inv f]
  have "sent = [] \<and> fw_origin f' = fw_origin f \<and> (fw_status f' = Ended \<longleftrightarrow> fw_status f = Ended) \<or>
    sent = [fw_origin f] \<and> fw_origin f' = fw_origin f \<and> fw_status f \<noteq> Ended \<and> fw_status f' = Ended"
    using e table_invD(6) [OF inv f] assms(3) ForwarderMoved
    by (cases e) (auto simp: Let_def split: if_splits result.splits)
  moreover have "length (fw_queue f') \<le> MAX_MESSAGES_RECEIVED"
    using e len by (cases e) (auto simp: Let_def split: if_splits result.splits)
  ultimately show ?thesis
    using table_inv_update [OF inv f] table_inv_end [OF inv f] by (auto simp: s')
qed

text \<open>Runs of a session.\<close>

fun run_session :: "bytes_crate \<Rightarrow> udp_session_event list \<Rightarrow> 'u udp_session \<Rightarrow> 'u udp_session option" where
  "run_session B [] s = Some s"
| "run_session B (ev # evs) s =
     (case udp_session_step B ev s of Some (Ok s') \<Rightarrow> run_session B evs s' | _ \<Rightarrow> None)"

lemma session_inv_run:
  "run_session B evs s = Some s' \<Longrightarrow> list_all not_cancelled evs \<Longrightarrow> session_inv s \<Longrightarrow> session_inv s'"
  by (induction evs arbitrary: s) (auto split: option.splits result.splits dest: session_inv_step)

section \<open>A burst of datagrams\<close>

lemma run_session_append:
  "run_session B (xs @ ys) s = (case run_session B xs s of None \<Rightarrow> None | Some s' \<Rightarrow> run_session B ys s')"
  by (induction xs arbitrary: s) (auto split: option.splits result.splits)

lemma process_known_origin:
  assumes "bytes_contract B" "socket_addr_ok a"
    and "us_sockets s (origin_of a) = Some c" "us_forwarders s c = Some f"
  shows "process_datagram B (datagram_header a @ p) s =
    Ok (s\<lparr>us_forwarders := (us_forwarders s)(c \<mapsto> try_send p f)\<rparr>)"
  using assms by (simp add: process_datagram_def extract_header)

lemma process_new_origin:
  assumes "bytes_contract B" "socket_addr_ok a" and "us_sockets s (origin_of a) = None"
  shows "process_datagram B (datagram_header a @ p) s =
    Ok (s\<lparr>us_forwarders := (us_forwarders s)(us_next s \<mapsto> try_send p (new_forwarder (origin_of a))),
          us_next := us_next s + 1, us_sockets := (us_sockets s)(origin_of a \<mapsto> us_next s)\<rparr>)"
  using assms by (simp add: process_datagram_def extract_header Let_def)

lemma fold_try_send:
  assumes "fw_status f \<noteq> Ended" and "length (fw_queue f) \<le> MAX_MESSAGES_RECEIVED"
  shows "fold try_send ps f = f\<lparr>fw_queue := take MAX_MESSAGES_RECEIVED (fw_queue f @ ps)\<rparr>"
  using assms
proof (induction ps arbitrary: f)
  case Nil
  then show ?case by simp
next
  case (Cons p ps)
  then show ?case
  proof (cases "length (fw_queue f) = MAX_MESSAGES_RECEIVED")
    case True
    then have "try_send p f = f" by (simp add: try_send_def)
    with Cons True show ?thesis by simp
  next
    case False
    with Cons.prems have "try_send p f = f\<lparr>fw_queue := fw_queue f @ [p]\<rparr>"
      "length (fw_queue f @ [p]) \<le> MAX_MESSAGES_RECEIVED"
      by (simp_all add: try_send_def)
    with Cons.IH [of "f\<lparr>fw_queue := fw_queue f @ [p]\<rparr>"] Cons.prems(1) show ?thesis by simp
  qed
qed

lemma burst_known:
  assumes "bytes_contract B" "socket_addr_ok a"
    and "us_sockets s (origin_of a) = Some c" "us_forwarders s c = Some f"
  shows "run_session B (map (\<lambda>p. DatagramReceived (Ok (datagram_header a @ p))) ps) s =
    Some (s\<lparr>us_forwarders := (us_forwarders s)(c \<mapsto> fold try_send ps f)\<rparr>)"
  using assms(3,4)
proof (induction ps arbitrary: s f)
  case Nil
  then show ?case by (simp add: fun_upd_idem)
next
  case (Cons p ps)
  let ?s = "s\<lparr>us_forwarders := (us_forwarders s)(c \<mapsto> try_send p f)\<rparr>"
  have "run_session B (map (\<lambda>p. DatagramReceived (Ok (datagram_header a @ p))) (p # ps)) s =
    run_session B (map (\<lambda>p. DatagramReceived (Ok (datagram_header a @ p))) ps) ?s"
    using process_known_origin [OF assms(1,2) Cons.prems, of p] by simp
  also have "\<dots> = Some (?s\<lparr>us_forwarders := (us_forwarders ?s)(c \<mapsto> fold try_send ps (try_send p f))\<rparr>)"
    by (rule Cons.IH) (simp_all add: Cons.prems)
  finally show ?case by (simp add: fun_upd_def cong: if_cong)
qed

lemma burst_new:
  assumes "bytes_contract B" "socket_addr_ok a" and "us_sockets s (origin_of a) = None"
  shows "run_session B (map (\<lambda>p. DatagramReceived (Ok (datagram_header a @ p))) (p # ps)) s =
    Some (s\<lparr>us_forwarders := (us_forwarders s)(us_next s \<mapsto>
            (new_forwarder (origin_of a))\<lparr>fw_queue := take MAX_MESSAGES_RECEIVED (p # ps)\<rparr>),
          us_next := us_next s + 1, us_sockets := (us_sockets s)(origin_of a \<mapsto> us_next s)\<rparr>)"
proof -
  let ?f = "new_forwarder (origin_of a)"
  let ?s = "s\<lparr>us_forwarders := (us_forwarders s)(us_next s \<mapsto> try_send p ?f),
    us_next := us_next s + 1, us_sockets := (us_sockets s)(origin_of a \<mapsto> us_next s)\<rparr>"
  have "run_session B (map (\<lambda>p. DatagramReceived (Ok (datagram_header a @ p))) ps) ?s =
    Some (?s\<lparr>us_forwarders := (us_forwarders ?s)(us_next s \<mapsto> fold try_send ps (try_send p ?f))\<rparr>)"
    by (rule burst_known [OF assms(1,2)]) simp_all
  moreover have "fold try_send ps (try_send p ?f) = ?f\<lparr>fw_queue := take MAX_MESSAGES_RECEIVED (p # ps)\<rparr>"
    using fold_try_send [of ?f "p # ps"] by simp
  ultimately show ?thesis using process_new_origin [OF assms, of p] by simp
qed

lemma accepted_append:
  "length results = length ms \<Longrightarrow> accepted (results @ rs) (ms @ ns) = accepted results ms @ accepted rs ns"
  by (simp add: accepted_def)

lemma accepted_all: "list_all is_ok results \<Longrightarrow> length results = length ms \<Longrightarrow> accepted results ms = ms"
  by (induction results ms rule: list_induct2') (auto simp: accepted_def)

text \<open>A forwarder that takes what is in its channel, in any batches.\<close>

lemma forward_batches:
  assumes "us_forwarders s c = Some f" and "fw_status f = Forwarding"
    and "length (concat batches) = length (fw_queue f)" and "list_all (\<lambda>b. b \<noteq> []) batches"
    and "length (fw_queue f) \<le> MAX_MESSAGES_RECEIVED"
  shows "run_session B (map (\<lambda>b. ForwarderMoved c (ReceivedMany b)) batches) s =
    Some (s\<lparr>us_forwarders := (us_forwarders s)(c \<mapsto>
      f\<lparr>fw_queue := [], fw_sent := fw_sent f @ accepted (concat batches) (fw_queue f)\<rparr>)\<rparr>)"
  using assms
proof (induction batches arbitrary: s f)
  case Nil
  then have "f\<lparr>fw_queue := [], fw_sent := fw_sent f @ accepted [] (fw_queue f)\<rparr> = f" by (simp add: accepted_def)
  with Nil(1) show ?case by (simp add: fun_upd_idem)
next
  case (Cons b batches)
  let ?n = "length b"
  let ?f = "f\<lparr>fw_queue := drop ?n (fw_queue f), fw_sent := fw_sent f @ accepted b (take ?n (fw_queue f))\<rparr>"
  let ?s = "s\<lparr>us_forwarders := (us_forwarders s)(c \<mapsto> ?f)\<rparr>"
  have n: "?n \<le> length (fw_queue f)" "b \<noteq> []" using Cons.prems(3,4) by simp_all
  then have "run_session B (map (\<lambda>b. ForwarderMoved c (ReceivedMany b)) (b # batches)) s =
      run_session B (map (\<lambda>b. ForwarderMoved c (ReceivedMany b)) batches) ?s"
    using Cons.prems by (simp add: Let_def)
  also have "\<dots> = Some (?s\<lparr>us_forwarders := (us_forwarders ?s)(c \<mapsto>
      ?f\<lparr>fw_queue := [], fw_sent := fw_sent ?f @ accepted (concat batches) (fw_queue ?f)\<rparr>)\<rparr>)"
    by (rule Cons.IH) (use Cons.prems in simp_all)
  finally show ?case
    using accepted_append [of b "take ?n (fw_queue f)" "concat batches" "drop ?n (fw_queue f)"] n(1)
    by (simp add: fun_upd_def cong: if_cong)
qed

lemma reader_forwards:
  assumes B: "bytes_contract B" and "\<forall>(buffer, len) \<in> set ds. len \<le> length buffer"
  shows "pipe_socket_to_tunnel_datagram B t a (map (\<lambda>(buffer, len). SocketReceived buffer len) ds) =
    (map (\<lambda>(buffer, len). SendDatagram (tunnel_connection t) (datagram_header a @ take len buffer)) ds, Running)"
  using assms(2)
  by (induction ds) (auto simp: to_datagram_eq [OF B] tunnel_send_datagram_def)

section \<open>Properties\<close>

definition egress_session :: "nat udp_session" where
  "egress_session = new_udp_session \<lparr>tunnel_id = 1, tunnel_server_id = ServerId [115],
     tunnel_connection = 11, tunnel_byte_counter = 0\<rparr>"

text \<open>
  C7. However datagrams, expiries and forwarders of a session interleave, as long as the
  egress is not being stopped: each origin has at most one forwarder that has not ended, and
  it is the one in the table; an entry whose forwarder has ended is about to be dropped,
  because its notice is in the expiry channel. So no origin is cut off for good by a dead
  entry, and no channel holds more than 128 messages.
\<close>

theorem udp_session_no_dead_entry:
  assumes "run_session B evs (new_udp_session t) = Some s" and "list_all not_cancelled evs"
  shows "(\<forall>a c. us_sockets s a = Some c \<longrightarrow>
      (\<exists>f. us_forwarders s c = Some f \<and> fw_origin f = a \<and>
         (fw_status f \<noteq> Ended \<or> a \<in> set (us_expired s)))) \<and>
    (\<forall>c f. us_forwarders s c = Some f \<longrightarrow> length (fw_queue f) \<le> 128 \<and>
      (fw_status f \<noteq> Ended \<longrightarrow> us_sockets s (fw_origin f) = Some c))"
proof -
  have inv: "session_inv s" by (rule session_inv_run [OF assms session_inv_new])
  show ?thesis
    using table_invD(1,5,6) [OF inv] by (fastforce simp: MAX_MESSAGES_RECEIVED_def)
qed

theorem udp_session_no_dead_entry_witness:
  "\<exists>s. run_session list_bytes [DatagramReceived (Ok [0, 10, 0, 0, 1, 1, 2, 7]),
       ForwarderMoved 0 (SocketMade (Err ClosedTunnel))] egress_session = Some s \<and>
     us_sockets s (SocketAddrV4 [10, 0, 0, 1] 258) = Some 0 \<and>
     SocketAddrV4 [10, 0, 0, 1] 258 \<in> set (us_expired s)"
proof -
  let ?a = "SocketAddrV4 [10, 0, 0, 1] 258"
  let ?evs = "[DatagramReceived (Ok [0, 10, 0, 0, 1, 1, 2, 7]), ForwarderMoved 0 (SocketMade (Err ClosedTunnel))]"
  have h: "[0, 10, 0, 0, 1, 1, 2, 7] = datagram_header ?a @ [7]" by (simp add: origin_defs u16_to_be_def)
  have "process_datagram list_bytes [0, 10, 0, 0, 1, 1, 2, 7] egress_session =
    Ok (egress_session\<lparr>us_forwarders := [0 \<mapsto> try_send [7] (new_forwarder ?a)], us_next := 1, us_sockets := [?a \<mapsto> 0]\<rparr>)"
    using process_new_origin [OF list_bytes_contract, of ?a egress_session "[7]"]
    by (simp add: h egress_session_def new_udp_session_def)
  then obtain s where s: "run_session list_bytes ?evs egress_session = Some s"
    "us_sockets s ?a = Some 0" "us_forwarders s 0 = Some ((try_send [7] (new_forwarder ?a))\<lparr>fw_status := Ended\<rparr>)"
    by simp
  from udp_session_no_dead_entry [OF s(1) [unfolded egress_session_def]] s show ?thesis by force
qed

text \<open>
  C27. A burst of datagrams from an origin without a forwarder: the first 128 wait in the new
  forwarder's channel while its socket is opened, and those beyond 128 are dropped. In
  whatever batches the forwarder then takes them, each is offered to the socket once, in
  order and unchanged, and the target is sent exactly those that the socket accepts; what
  it refuses is lost without a retry, and does not hold up the rest.
\<close>

theorem udp_burst_delivered:
  assumes "bytes_contract B" "socket_addr_ok a" and "us_sockets s (origin_of a) = None"
    and "length (concat batches) = min 128 (length (p # ps))" and "list_all (\<lambda>b. b \<noteq> []) batches"
  shows "\<exists>s' f. run_session B
      (map (\<lambda>p. DatagramReceived (Ok (datagram_header a @ p))) (p # ps) @
       ForwarderMoved (us_next s) (SocketMade (Ok sock)) #
       map (\<lambda>b. ForwarderMoved (us_next s) (ReceivedMany b)) batches) s = Some s' \<and>
    us_sockets s' (origin_of a) = Some (us_next s) \<and> us_forwarders s' (us_next s) = Some f \<and>
    fw_origin f = origin_of a \<and> fw_queue f = [] \<and> fw_status f = Forwarding \<and>
    fw_sent f = accepted (concat batches) (take 128 (p # ps)) \<and>
    (list_all is_ok (concat batches) \<longrightarrow> fw_sent f = take 128 (p # ps))"
proof -
  let ?f = "(new_forwarder (origin_of a))\<lparr>fw_queue := take 128 (p # ps), fw_status := Forwarding\<rparr>"
  let ?s = "s\<lparr>us_forwarders := (us_forwarders s)(us_next s \<mapsto> ?f), us_next := us_next s + 1,
    us_sockets := (us_sockets s)(origin_of a \<mapsto> us_next s)\<rparr>"
  have len: "length (concat batches) = length (fw_queue ?f)" using assms(4) by simp
  let ?burst = "map (\<lambda>p. DatagramReceived (Ok (datagram_header a @ p))) (p # ps)"
  let ?rest = "map (\<lambda>b. ForwarderMoved (us_next s) (ReceivedMany b)) batches"
  let ?g = "?f\<lparr>fw_queue := [], fw_sent := fw_sent ?f @ accepted (concat batches) (fw_queue ?f)\<rparr>"
  let ?s' = "?s\<lparr>us_forwarders := (us_forwarders ?s)(us_next s \<mapsto> ?g)\<rparr>"
  have "run_session B ?rest ?s = Some ?s'"
    by (rule forward_batches) (use len assms(5) in \<open>simp_all add: MAX_MESSAGES_RECEIVED_def\<close>)
  moreover have "run_session B (?burst @ [ForwarderMoved (us_next s) (SocketMade (Ok sock))]) s = Some ?s"
    unfolding run_session_append burst_new [OF assms(1-3)]
    by (simp add: MAX_MESSAGES_RECEIVED_def del: take_Suc_Cons)
  ultimately have "run_session B ((?burst @ [ForwarderMoved (us_next s) (SocketMade (Ok sock))]) @ ?rest) s = Some ?s'"
    unfolding run_session_append by (simp only: option.case)
  then show ?thesis
    using accepted_all [of "concat batches" "take 128 (p # ps)"] len
    by (intro exI [of _ ?s'] exI [of _ ?g] conjI) (simp_all add: new_forwarder_def del: run_session.simps)
qed

theorem udp_burst_delivered_witness:
  "\<exists>s' f. run_session list_bytes [DatagramReceived (Ok [0, 10, 0, 0, 1, 1, 2, 7]),
      DatagramReceived (Ok [0, 10, 0, 0, 1, 1, 2, 8, 9]), ForwarderMoved 0 (SocketMade (Ok 4)),
      ForwarderMoved 0 (ReceivedMany [Err (IoOther ''would block'')]), ForwarderMoved 0 (ReceivedMany [Ok 2])]
      egress_session = Some s' \<and>
    us_forwarders s' 0 = Some f \<and> fw_sent f = [[8, 9]]"
proof -
  let ?a = "SocketAddrV4 [10, 0, 0, 1] 258" and ?bs = "[[Err (IoOther ''would block'')], [Ok 2]]"
  have h: "datagram_header ?a = [0, 10, 0, 0, 1, 1, 2]" by (simp add: origin_defs u16_to_be_def)
  have n: "us_next egress_session = 0" "us_sockets egress_session (origin_of ?a) = None"
    by (simp_all add: egress_session_def new_udp_session_def)
  have ok: "socket_addr_ok ?a" "length (concat ?bs) = min 128 (length [[7], [8, 9 :: u8]])" "list_all (\<lambda>b. b \<noteq> []) ?bs"
    by simp_all
  have sent: "accepted (concat ?bs) (take 128 [[7], [8, 9]]) = [[8, 9]]" by (simp add: accepted_def is_ok_def)
  show ?thesis
    using udp_burst_delivered [OF list_bytes_contract ok(1) n(2) ok(2,3), of 4]
    unfolding n(1) h sent by (auto simp del: run_session.simps)
qed

text \<open>
  Replies: every datagram that a forwarder's socket receives goes back on the tunnel
  with the origin's address in front, in order, and a failed receive loses nothing else.
\<close>

lemma udp_replies_to_origin:
  assumes "bytes_contract B" and "\<forall>(buffer, len) \<in> set (ds @ ds'). len \<le> length buffer"
  shows "pipe_socket_to_tunnel_datagram B t a (map (\<lambda>(buffer, len). SocketReceived buffer len) ds @
      SocketRecvFailed # map (\<lambda>(buffer, len). SocketReceived buffer len) ds') =
    (map (\<lambda>(buffer, len). SendDatagram (tunnel_connection t) (datagram_header a @ take len buffer)) (ds @ ds'),
     Running)"
  using assms(2)
  by (induction ds) (auto simp: to_datagram_eq [OF assms(1)] tunnel_send_datagram_def reader_forwards [OF assms(1)])

end
