(* ===== verification/Registry.thy ===== *)
theory Registry
  imports Siffleux_Error
begin

text \<open>
  The registries of \<^verbatim>\<open>server/server.rs\<close> (ingresses by id) and \<^verbatim>\<open>client/client.rs\<close> (egresses by
  id): an object is registered once under its own id, a second object with the id is refused,
  and stopping empties the registry. The locale is their common interface.
\<close>

fun assign_all ::
    "('o \<Rightarrow> 's \<Rightarrow> (unit, error) result \<times> 's) \<Rightarrow> 'o list \<Rightarrow> 's \<Rightarrow> (unit, error) result list \<times> 's" where
  "assign_all assign [] s = ([], s)"
| "assign_all assign (x # xs) s =
     (let (r, s') = assign x s; (rs, s'') = assign_all assign xs s' in (r # rs, s''))"

text \<open>What a sequence of registrations promises: the first object of each id is kept.\<close>

fun spec_results :: "('i \<Rightarrow> error) \<Rightarrow> 'i list \<Rightarrow> 'i set \<Rightarrow> (unit, error) result list" where
  "spec_results taken [] known = []"
| "spec_results taken (i # is) known =
     (if i \<in> known then Err (taken i) else Ok ()) # spec_results taken is (insert i known)"

locale registry =
  fixes table :: "'s \<Rightarrow> 'i \<rightharpoonup> 'o"
    and key_of :: "'s \<Rightarrow> 'o \<Rightarrow> 'i"
    and assign :: "'o \<Rightarrow> 's \<Rightarrow> (unit, error) result \<times> 's"
    and taken :: "'i \<Rightarrow> error"
  assumes assign_taken: "table s (key_of s x) \<noteq> None \<Longrightarrow> assign x s = (Err (taken (key_of s x)), s)"
    and assign_new: "table s (key_of s x) = None \<Longrightarrow> fst (assign x s) = Ok ()"
    and assign_table: "table s (key_of s x) = None \<Longrightarrow>
      table (snd (assign x s)) = (table s)(key_of s x \<mapsto> x)"
    and assign_keys: "key_of (snd (assign x s)) = key_of s"
begin

lemma assign_all_keys: "key_of (snd (assign_all assign xs s)) = key_of s"
  by (induction xs arbitrary: s) (simp_all add: case_prod_beta assign_keys)

lemma assign_all_refines:
  "fst (assign_all assign xs s) = spec_results taken (map (key_of s) xs) (dom (table s)) \<and>
   table (snd (assign_all assign xs s)) = map_of (map (\<lambda>x. (key_of s x, x)) xs) ++ table s"
proof (induction xs arbitrary: s)
  case Nil
  then show ?case by simp
next
  case (Cons x xs)
  let ?s = "snd (assign x s)"
  have IH: "fst (assign_all assign xs ?s) = spec_results taken (map (key_of s) xs) (dom (table ?s))"
    "table (snd (assign_all assign xs ?s)) = map_of (map (\<lambda>x. (key_of s x, x)) xs) ++ table ?s"
    using Cons.IH [of ?s] by (simp_all add: assign_keys)
  show ?case
  proof (cases "table s (key_of s x)")
    case None
    then show ?thesis
      using IH assign_new [of s x] assign_table [of s x]
      by (auto simp: case_prod_beta map_add_def fun_eq_iff split: option.split)
  next
    case (Some y)
    then have "assign x s = (Err (taken (key_of s x)), s)" by (simp add: assign_taken)
    moreover have "insert (key_of s x) (dom (table s)) = dom (table s)" using Some by auto
    ultimately show ?thesis
      using IH Some by (auto simp: case_prod_beta map_add_def fun_eq_iff split: option.split)
  qed
qed

end

end
