(* ===== verification/Protocol_V1.thy ===== *)
theory Protocol_V1
  imports Frames_V1 Tunnel
begin

text \<open>
  What \<^verbatim>\<open>server/protocols/v1.rs\<close> and \<^verbatim>\<open>client/protocols/v1.rs\<close> share: the events of the
  authentication and of the command stream. Frames arrive decoded (\<open>decode\<close> of \<^verbatim>\<open>Frames_V1\<close> is
  what reads them), as the framed reader of the library hands them out.
\<close>

text \<open>
  The settings both sides make on a QUIC endpoint: the protocol they offer, the timers (in
  seconds) and the limits. A timer that is \<open>None\<close> is left at the library's default.
\<close>

record quic_config =
  alpn_protocol :: string
  keep_alive_secs :: "nat option"
  max_idle_secs :: "nat option"
  send_window :: nat
  receive_window :: nat
  stream_receive_window :: nat
  max_concurrent_bidi_streams :: nat

text \<open>What the first \<^verbatim>\<open>select!\<close> sees: the next frame (\<open>None\<close> at the end of the stream), or the timer.\<close>

datatype 'u auth_event = NextFrame "('u frame_v1, error) result option" | AuthTimeout

text \<open>
  An event is the ping timer, with the result of sending the ping, or the next frame, with
  the result of sending the pong if one is due.
\<close>

datatype 'u command_event =
    PingDue "(unit, error) result"
  | FrameRead "('u frame_v1, error) result option" "(unit, error) result"

text \<open>The events up to and including the first that ends the loop.\<close>

definition up_to_end :: "('a \<Rightarrow> bool) \<Rightarrow> 'a list \<Rightarrow> 'a list" where
  "up_to_end go es = takeWhile go es @ take 1 (dropWhile go es)"

lemma up_to_end_simps [simp]:
  "up_to_end go [] = []"
  "up_to_end go (e # es) = e # (if go e then up_to_end go es else [])"
  by (simp_all add: up_to_end_def)

end
