(* ===== verification/Client.thy ===== *)
theory Client
  imports Tcp_Egress Udp_Egress Registry Protocol_V1
begin

text \<open>
  \<^verbatim>\<open>client/client.rs\<close>, \<^verbatim>\<open>client/protocols/v1.rs\<close> and the trait of \<^verbatim>\<open>client/egress/egress.rs\<close>. The
  client's registry holds references to egresses in a heap. The two sides of the protocol are
  the authentication on a fresh connection (\<open>handle_client_protocol_v1_auth\<close>) and the task that
  answers commands afterwards (\<open>handle_client_protocol_v1_command_stream\<close>).
\<close>

section \<open>Egress objects\<close>

datatype 'auth egress_obj = TcpE "'auth tcp_egress" | UdpE "'auth udp_egress"

fun egress_obj_id :: "'auth egress_obj \<Rightarrow> egress_id" where
  "egress_obj_id (TcpE s) = tcp_egress_id s"
| "egress_obj_id (UdpE s) = udp_egress_id s"

fun egress_obj_ingress_id :: "'auth egress_obj \<Rightarrow> ingress_id" where
  "egress_obj_ingress_id (TcpE s) = tcp_egress_ingress_id s"
| "egress_obj_ingress_id (UdpE s) = udp_egress_ingress_id s"

fun egress_obj_state :: "'auth egress_obj \<Rightarrow> egress_state" where
  "egress_obj_state (TcpE s) = tcp_egress_state s"
| "egress_obj_state (UdpE s) = udp_egress_state s"

fun egress_obj_process :: "'auth egress_obj \<Rightarrow> process option" where
  "egress_obj_process (TcpE s) = te_process s"
| "egress_obj_process (UdpE s) = ue_process s"

fun egress_obj_start :: "process \<Rightarrow> 'auth egress_obj \<Rightarrow> (unit, error) result \<times> 'auth egress_obj" where
  "egress_obj_start k (TcpE s) = (let (r, s') = tcp_egress_start k s in (r, TcpE s'))"
| "egress_obj_start k (UdpE s) = (let (r, s') = udp_egress_start k s in (r, UdpE s'))"

fun egress_obj_stop :: "(unit, string) result \<Rightarrow> 'auth egress_obj \<Rightarrow> (unit, error) result \<times> 'auth egress_obj" where
  "egress_obj_stop joined (TcpE s) = (let (r, s') = tcp_egress_stop joined s in (r, TcpE s'))"
| "egress_obj_stop joined (UdpE s) = (let (r, s') = udp_egress_stop joined s in (r, UdpE s'))"

section \<open>The client\<close>

text \<open>A clone of an egress shares its state: it is the same reference.\<close>

type_synonym egress_ref = nat

definition egress_clone_box :: "egress_ref \<Rightarrow> egress_ref" where
  [simp]: "egress_clone_box self = self"

definition boxed_egress_clone :: "egress_ref \<Rightarrow> egress_ref" where
  [simp]: "boxed_egress_clone self = egress_clone_box self"

record 'auth client =
  cl_egress_by_id :: "egress_id \<rightharpoonup> egress_ref"
  cl_byte_counter :: nat
  cl_heap :: "egress_ref \<Rightarrow> 'auth egress_obj"

definition client_new :: "(egress_ref \<Rightarrow> 'auth egress_obj) \<Rightarrow> counter_store \<Rightarrow> 'auth client \<times> counter_store" where
  "client_new heap st =
     (let (c, st) = byte_counter_new None st in
      (\<lparr>cl_egress_by_id = Map.empty, cl_byte_counter = c, cl_heap = heap\<rparr>, st))"

definition client_get_byte_counter :: "'auth client \<Rightarrow> nat" where
  [simp]: "client_get_byte_counter s = cl_byte_counter s"

definition client_assign_egress :: "egress_ref \<Rightarrow> 'auth client \<Rightarrow> (unit, error) result \<times> 'auth client" where
  "client_assign_egress boxed s =
     (let i = egress_obj_id (cl_heap s boxed) in
      if cl_egress_by_id s i \<noteq> None then (Err (EgressIDAlreadyAssigned i), s)
      else (Ok (), s\<lparr>cl_egress_by_id := (cl_egress_by_id s)(i \<mapsto> boxed)\<rparr>))"

text \<open>
  \<^verbatim>\<open>stop\<close> drains the registry in the order of the hash map, an argument, with for each egress
  what joining its task returns; errors are only logged.
\<close>

fun stop_egresses ::
    "((egress_id \<times> egress_ref) \<times> (unit, string) result) list \<Rightarrow> (egress_ref \<Rightarrow> 'auth egress_obj) \<Rightarrow>
      (egress_ref \<Rightarrow> 'auth egress_obj)" where
  "stop_egresses [] heap = heap"
| "stop_egresses (((i, r), joined) # drained) heap =
     stop_egresses drained (heap(r := snd (egress_obj_stop joined (heap r))))"

definition client_stop ::
    "((egress_id \<times> egress_ref) \<times> (unit, string) result) list \<Rightarrow> 'auth client \<Rightarrow>
      (unit, error) result \<times> 'auth client" where
  "client_stop drained s =
     (Ok (), s\<lparr>cl_egress_by_id := Map.empty, cl_heap := stop_egresses drained (cl_heap s)\<rparr>)"

section \<open>The protocol\<close>

text \<open>
  \<open>open_bi\<close> and \<open>sent\<close> are the results of opening the stream and of sending the first frame;
  the event is the reply or the timer. The boolean of the result says whether the task of the
  command stream was spawned.
\<close>

definition handle_client_protocol_v1_auth ::
    "conn \<Rightarrow> auth_key \<Rightarrow> ingress_id \<Rightarrow> nat \<Rightarrow> (unit, connection_error) result \<Rightarrow> (unit, error) result \<Rightarrow>
      'u auth_event \<Rightarrow> counter_store \<Rightarrow>
      ('u tunnel, error) result \<times> 'u frame_v1 list \<times> quic_call list \<times> bool \<times> counter_store" where
  "handle_client_protocol_v1_auth connection auth_key ingress_id client_byte_counter open_bi sent ev st =
     (case open_bi of
        Err e \<Rightarrow> (Err (from_connection_error e), [], [], False, st)
      | Panic \<Rightarrow> (Panic, [], [], False, st)
      | Ok _ \<Rightarrow>
          (let first = Auth auth_key ingress_id in
           case sent of
             Err e \<Rightarrow> (Err e, [first], [], False, st)
           | Panic \<Rightarrow> (Panic, [first], [], False, st)
           | Ok _ \<Rightarrow>
               (case ev of
                  AuthTimeout \<Rightarrow>
                    (let msg = ''Authenticated frame not received on time.'' in
                     (Err (FrameNotReceivedOnTime msg), [first],
                      [CloseConnection connection FRAME_NOT_RECEIVED_ON_TIME msg], False, st))
                | NextFrame None \<Rightarrow> (Err ConnectionClosed, [first], [], False, st)
                | NextFrame (Some (Err e)) \<Rightarrow>
                    (Err e, [first], [CloseConnection connection UNKNOWN_ERROR UNKNOWN_ERROR_CLIENT_REASON], False, st)
                | NextFrame (Some Panic) \<Rightarrow> (Panic, [first], [], False, st)
                | NextFrame (Some (Ok frame)) \<Rightarrow>
                    (case frame of
                       Authenticated uuid server_id \<Rightarrow>
                         (let (tunnel, st) = tunnel_new uuid server_id connection (Some client_byte_counter) st in
                          (Ok tunnel, [first], [], True, st))
                     | _ \<Rightarrow>
                         (let msg = ''First frame received wasn't authenticated.'' in
                          (Err (UnexpectedFrameReceived msg), [first],
                           [CloseConnection connection UNEXPECTED_FRAME_RECEIVED msg], False, st))))))"

definition CLIENT_PING_INTERVAL_SEC :: nat where "CLIENT_PING_INTERVAL_SEC = 5"

fun handle_client_protocol_v1_command_stream ::
    "conn \<Rightarrow> 'u command_event list \<Rightarrow> 'u frame_v1 list \<times> quic_call list \<times> unit run" where
  "handle_client_protocol_v1_command_stream connection [] = ([], [], Running)"
| "handle_client_protocol_v1_command_stream connection (PingDue sent # es) =
     (case sent of
        Ok _ \<Rightarrow>
          (let (fs, calls, r) = handle_client_protocol_v1_command_stream connection es in (Ping # fs, calls, r))
      | Err e \<Rightarrow>
          ([Ping], [CloseConnection connection UNKNOWN_ERROR UNKNOWN_ERROR_CLIENT_REASON], Returned ())
      | Panic \<Rightarrow> ([Ping], [], Panicked))"
| "handle_client_protocol_v1_command_stream connection (FrameRead frame_opt sent # es) =
     (case frame_opt of
        Some (Ok frame) \<Rightarrow>
          (case frame of
             Ping \<Rightarrow>
               (if sent = Panic then ([Pong], [], Panicked)
                else let (fs, calls, r) = handle_client_protocol_v1_command_stream connection es
                     in (Pong # fs, calls, r))
           | _ \<Rightarrow> handle_client_protocol_v1_command_stream connection es)
      | Some (Err e) \<Rightarrow>
          ([], if e \<noteq> ClosedTunnel then [CloseConnection connection UNKNOWN_ERROR UNKNOWN_ERROR_CLIENT_REASON] else [],
           Returned ())
      | Some Panic \<Rightarrow> ([], [], Panicked)
      | None \<Rightarrow>
          ([], [CloseConnection connection COMMAND_STREAM_CLOSED ''Command stream closed.''], Returned ()))"

section \<open>The registry\<close>

interpretation egress_registry: registry cl_egress_by_id "\<lambda>s r. egress_obj_id (cl_heap s r)"
  client_assign_egress EgressIDAlreadyAssigned
  by unfold_locales (auto simp: client_assign_egress_def Let_def)

lemma egress_obj_stopped: "egress_obj_process (snd (egress_obj_stop joined e)) = None"
  by (cases e)
    (auto simp: tcp_egress_stop_def udp_egress_stop_def model_defs split: option.split result.split)

lemma stop_egresses_keeps: "egress_obj_process (heap r) = None \<Longrightarrow> egress_obj_process (stop_egresses drained heap r) = None"
  by (induction drained heap rule: stop_egresses.induct) (auto simp: egress_obj_stopped)

lemma stop_egresses_stopped:
  "r \<in> snd ` fst ` set drained \<Longrightarrow> egress_obj_process (stop_egresses drained heap r) = None"
proof (induction drained heap rule: stop_egresses.induct)
  case (2 i q joined drained heap)
  show ?case
  proof (cases "r = q")
    case True
    then show ?thesis by (simp add: stop_egresses_keeps egress_obj_stopped)
  next
    case False
    with 2 show ?thesis by (auto simp: fun_upd_def)
  qed
qed simp

text \<open>A joined task leaves the egress in the state \<open>Stopped\<close>.\<close>

lemma egress_obj_stop_state:
  "egress_obj_process e \<noteq> None \<Longrightarrow> egress_obj_state (snd (egress_obj_stop (Ok ()) e)) = Stopped"
  by (cases e) (auto simp: tcp_egress_stop_def udp_egress_stop_def model_defs)

section \<open>What the client closes with\<close>

text \<open>The codes with which the client gives up on a reply.\<close>

fun reply_rejection :: "'u auth_event \<Rightarrow> (varint \<times> string) option" where
  "reply_rejection AuthTimeout = Some (FRAME_NOT_RECEIVED_ON_TIME, ''Authenticated frame not received on time.'')"
| "reply_rejection (NextFrame None) = None"
| "reply_rejection (NextFrame (Some Panic)) = None"
| "reply_rejection (NextFrame (Some (Err e))) = Some (UNKNOWN_ERROR, UNKNOWN_ERROR_CLIENT_REASON)"
| "reply_rejection (NextFrame (Some (Ok (Authenticated u i)))) = None"
| "reply_rejection (NextFrame (Some (Ok f))) =
     Some (UNEXPECTED_FRAME_RECEIVED, ''First frame received wasn't authenticated.'')"

fun client_goes_on :: "'u command_event \<Rightarrow> bool" where
  "client_goes_on (PingDue sent) = is_ok sent"
| "client_goes_on (FrameRead (Some (Ok Ping)) sent) = (sent \<noteq> Panic)"
| "client_goes_on (FrameRead (Some (Ok f)) sent) = True"
| "client_goes_on (FrameRead _ sent) = False"

fun client_close :: "conn \<Rightarrow> 'u command_event \<Rightarrow> quic_call list" where
  "client_close c (PingDue (Err e)) = [CloseConnection c UNKNOWN_ERROR UNKNOWN_ERROR_CLIENT_REASON]"
| "client_close c (FrameRead (Some (Err e)) sent) =
     (if e = ClosedTunnel then [] else [CloseConnection c UNKNOWN_ERROR UNKNOWN_ERROR_CLIENT_REASON])"
| "client_close c (FrameRead None sent) = [CloseConnection c COMMAND_STREAM_CLOSED ''Command stream closed.'']"
| "client_close c _ = []"

fun client_reply :: "'u command_event \<Rightarrow> 'u frame_v1 list" where
  "client_reply (PingDue sent) = [Ping]"
| "client_reply (FrameRead (Some (Ok Ping)) sent) = [Pong]"
| "client_reply (FrameRead _ sent) = []"

lemma client_commands_step:
  "handle_client_protocol_v1_command_stream c (ev # es) =
    (if client_goes_on ev then
       (let (fs, calls, r) = handle_client_protocol_v1_command_stream c es in (client_reply ev @ fs, calls, r))
     else (client_reply ev, client_close c ev,
       if ev = PingDue Panic \<or> (\<exists>sent. ev = FrameRead (Some Panic) sent) \<or> ev = FrameRead (Some (Ok Ping)) Panic
       then Panicked else Returned ()))"
proof (cases ev)
  case (PingDue sent)
  then show ?thesis by (cases sent) (simp_all add: is_ok_def)
next
  case (FrameRead f sent)
  then show ?thesis
    by (cases "FrameRead f sent" rule: client_goes_on.cases)
      (auto simp: case_prod_beta split: option.splits result.splits frame_v1.splits)
qed

text \<open>
  The client's command task: it sends a ping at every tick and a pong for every ping
  received, and nothing else, in the order of the events; it runs until a ping cannot be
  sent or the stream ends or fails, and then closes the connection with the code for the
  reason, except when the tunnel is already closed. A pong that cannot be sent does not end
  it.
\<close>

lemma client_commands:
  "fst (handle_client_protocol_v1_command_stream c es) = concat (map client_reply (up_to_end client_goes_on es)) \<and>
   fst (snd (handle_client_protocol_v1_command_stream c es)) =
     concat (map (client_close c) (take 1 (dropWhile client_goes_on es))) \<and>
   (snd (snd (handle_client_protocol_v1_command_stream c es)) = Running \<longleftrightarrow> list_all client_goes_on es)"
proof (induction es)
  case (Cons ev es)
  then show ?case unfolding client_commands_step by (simp add: case_prod_beta)
qed simp

section \<open>Properties\<close>

text \<open>
  C28. The client's side of the authentication, on every branch: a tunnel exactly when the
  stream opened, the \<^verbatim>\<open>Auth\<close> frame was sent and the reply is \<^verbatim>\<open>Authenticated\<close>; the tunnel has the id
  and the server of the reply, and the command task runs exactly then. Nothing but the
  \<^verbatim>\<open>Auth\<close> frame is sent, and a wrong, unreadable or late reply closes the connection with its
  code.
\<close>

theorem client_auth_exact:
  "let (r, frames, calls, spawned, st') = handle_client_protocol_v1_auth c k i counter open_bi sent ev st in
   (r = Ok t \<longleftrightarrow> open_bi = Ok () \<and> sent = Ok () \<and>
      (\<exists>u server. ev = NextFrame (Some (Ok (Authenticated u server))) \<and>
         t = fst (tunnel_new u server c (Some counter) st))) \<and>
   (spawned \<longleftrightarrow> is_ok r) \<and>
   frames = (if is_ok open_bi then [Auth k i] else []) \<and>
   calls = (if is_ok open_bi \<and> is_ok sent
     then (case reply_rejection ev of None \<Rightarrow> [] | Some (code, reason) \<Rightarrow> [CloseConnection c code reason]) else [])"
proof (cases "open_bi = Ok () \<and> sent = Ok ()")
  case True
  then show ?thesis
    by (cases ev rule: reply_rejection.cases)
      (auto simp: handle_client_protocol_v1_auth_def is_ok_def case_prod_beta Let_def)
next
  case False
  then show ?thesis
    by (cases open_bi; cases sent) (auto simp: handle_client_protocol_v1_auth_def is_ok_def Let_def)
qed

text \<open>
  The client's registry and its stop: the first egress of each id is kept and the later
  ones are refused; stopping takes the process from every registered egress, in whatever
  order they are drained and whatever joining their tasks returns, and empties the registry.
\<close>

lemma client_registry_and_stop:
  assumes "cl_egress_by_id s = Map.empty"
    and "client_stop drained (snd (assign_all client_assign_egress rs s)) = (res, s')"
    and "map_of (map fst drained) = cl_egress_by_id (snd (assign_all client_assign_egress rs s))"
  shows "fst (assign_all client_assign_egress rs s) =
      spec_results EgressIDAlreadyAssigned (map (\<lambda>r. egress_obj_id (cl_heap s r)) rs) {} \<and>
    res = Ok () \<and> cl_egress_by_id s' = Map.empty \<and>
    list_all (\<lambda>i. \<exists>r. map_of (map (\<lambda>r. (egress_obj_id (cl_heap s r), r)) rs) i = Some r \<and>
      egress_obj_process (cl_heap s' r) = None) (map (\<lambda>r. egress_obj_id (cl_heap s r)) rs)"
proof -
  let ?s = "snd (assign_all client_assign_egress rs s)" and ?key = "\<lambda>r. egress_obj_id (cl_heap s r)"
  let ?m = "map_of (map (\<lambda>r. (?key r, r)) rs)"
  have reg: "fst (assign_all client_assign_egress rs s) = spec_results EgressIDAlreadyAssigned (map ?key rs) {}"
    "cl_egress_by_id ?s = ?m"
    using egress_registry.assign_all_refines [of rs s] assms(1) by simp_all
  have s': "res = Ok ()" "cl_egress_by_id s' = Map.empty" "cl_heap s' = stop_egresses drained (cl_heap ?s)"
    using assms(2) by (auto simp: client_stop_def)
  have stopped: "egress_obj_process (cl_heap s' r) = None" if "?m i = Some r" for i r
  proof -
    have "(i, r) \<in> fst ` set drained"
      using that assms(3) reg(2) map_of_SomeD [of "map fst drained" i r] by simp
    then have "r \<in> snd ` fst ` set drained" by force
    then show ?thesis unfolding s'(3) by (rule stop_egresses_stopped)
  qed
  have "\<exists>r. ?m i = Some r" if "i \<in> ?key ` set rs" for i
    using that map_of_eq_None_iff [of "map (\<lambda>r. (?key r, r)) rs" i] by (cases "?m i") (auto simp: image_image)
  with stopped show ?thesis using reg(1) s' by (fastforce simp: list_all_iff)
qed

lemma client_registry_and_stop_witness:
  "fst (assign_all client_assign_egress [0, 1] (fst (client_new (\<lambda>_. TcpE sample_egress) empty_store))) =
    [Ok (), Err (EgressIDAlreadyAssigned (EgressId [101]))]"
proof -
  let ?s = "fst (client_new (\<lambda>_. TcpE sample_egress) empty_store)"
  have empty: "cl_egress_by_id ?s = Map.empty" by (simp add: client_new_def byte_counter_new_def)
  have key: "egress_obj_id (cl_heap ?s r) = EgressId [101]" for r
    by (simp add: client_new_def byte_counter_new_def sample_egress_def tcp_egress_new_def)
  have drained: "map_of (map fst [((EgressId [101], 0), Ok ())]) =
      cl_egress_by_id (snd (assign_all client_assign_egress [0, 1] ?s))"
    using egress_registry.assign_all_refines [of "[0, 1]" ?s] empty key by (simp add: fun_eq_iff)
  obtain res s' where stop: "client_stop [((EgressId [101], 0), Ok ())]
      (snd (assign_all client_assign_egress [0, 1] ?s)) = (res, s')"
    by (meson surj_pair)
  from client_registry_and_stop [OF empty stop drained] key show ?thesis by simp
qed

end
