(* ===== verification/Authentication.thy ===== *)
theory Authentication
  imports Client
begin

text \<open>
  \<^verbatim>\<open>client/authentication\<close>: \<open>v1_connect\<close> is the \<^verbatim>\<open>connect\<close> that the egresses' tunnel tasks call. It
  builds a TLS configuration whose verifier accepts exactly the certificate with the
  configured hash, makes the connection, opens the first stream and authenticates. The hash
  function, the signature checks of the crypto provider, and what the TLS and QUIC libraries
  return are arguments.
\<close>

section \<open>The verifier\<close>

definition hash_certificate :: "(bytes \<Rightarrow> bytes) \<Rightarrow> bytes \<Rightarrow> bytes" where
  "hash_certificate sha256 certificate = sha256 certificate"

text \<open>
  The process's default crypto provider, as the verifier uses it: the signature schemes it
  can check and the two checks, of a message against a certificate and a signature.
\<close>

record digitally_signed =
  dss_scheme :: u16
  dss_signature :: bytes

record crypto_provider =
  provider_schemes :: "u16 list"
  provider_tls12 :: "bytes \<Rightarrow> bytes \<Rightarrow> digitally_signed \<Rightarrow> (unit, string) result"
  provider_tls13 :: "bytes \<Rightarrow> bytes \<Rightarrow> digitally_signed \<Rightarrow> (unit, string) result"

record certificate_hash_verifier =
  cv_certificate_hash :: bytes
  cv_supported_signature_schemes :: "u16 list"

definition certificate_hash_verifier_new ::
    "crypto_provider option \<Rightarrow> bytes \<Rightarrow> (certificate_hash_verifier, 'e) result" where
  "certificate_hash_verifier_new default_provider certificate_hash =
     and_then (or_panic default_provider) (\<lambda>p.
     Ok \<lparr>cv_certificate_hash = certificate_hash, cv_supported_signature_schemes = provider_schemes p\<rparr>)"

definition verify_server_cert ::
    "(bytes \<Rightarrow> bytes) \<Rightarrow> certificate_hash_verifier \<Rightarrow> bytes \<Rightarrow> (unit, string) result" where
  "verify_server_cert sha256 self end_entity =
     (let got = sha256 end_entity in
      if got = cv_certificate_hash self then Ok () else Err ''certificate hash mismatch'')"

definition verify_tls12_signature ::
    "crypto_provider option \<Rightarrow> bytes \<Rightarrow> bytes \<Rightarrow> digitally_signed \<Rightarrow> (unit, string) result" where
  "verify_tls12_signature default_provider message cert dss =
     and_then (or_panic default_provider) (\<lambda>p. provider_tls12 p message cert dss)"

definition verify_tls13_signature ::
    "crypto_provider option \<Rightarrow> bytes \<Rightarrow> bytes \<Rightarrow> digitally_signed \<Rightarrow> (unit, string) result" where
  "verify_tls13_signature default_provider message cert dss =
     and_then (or_panic default_provider) (\<lambda>p. provider_tls13 p message cert dss)"

definition supported_verify_schemes :: "certificate_hash_verifier \<Rightarrow> u16 list" where
  "supported_verify_schemes self = cv_supported_signature_schemes self"

section \<open>Connecting\<close>

record v1_certificate_hash =
  vc_auth_key :: auth_key
  vc_client_counter :: nat
  vc_server_address :: socket_addr
  vc_server_name :: rust_str
  vc_certificate_hash :: bytes

definition v1_certificate_hash_new ::
    "nat \<Rightarrow> auth_key \<Rightarrow> socket_addr \<Rightarrow> rust_str \<Rightarrow> bytes \<Rightarrow> v1_certificate_hash" where
  "v1_certificate_hash_new client_counter auth_key server_address server_name certificate_hash =
     \<lparr>vc_auth_key = auth_key, vc_client_counter = client_counter, vc_server_address = server_address,
      vc_server_name = server_name, vc_certificate_hash = certificate_hash\<rparr>"

definition client_quic_config :: quic_config where
  "client_quic_config =
     \<lparr>alpn_protocol = VERSION, keep_alive_secs = None, max_idle_secs = None,
      send_window = 256 * 1024 * 1024, receive_window = 256 * 1024 * 1024,
      stream_receive_window = 2 * 1024 * 1024, max_concurrent_bidi_streams = 1000\<rparr>"

text \<open>
  The results of the libraries' calls. The server presents a certificate, and a signature of
  the handshake's transcript; the handshake is a function of the settings offered and of the
  verdicts that the verifier gives on them (QUIC uses TLS 1.3). \<open>default_provider\<close> is what the
  library returns once the configuration's builder has been made.
\<close>

record 'u connect_env =
  default_provider :: "crypto_provider option"
  quic_client_config :: "(unit, string) result"
  client_endpoint :: "(unit, io_error) result"
  connect_with :: "quic_config \<Rightarrow> socket_addr \<Rightarrow> rust_str \<Rightarrow> (unit, string) result"
  server_certificate :: bytes
  transcript :: bytes
  server_signature :: digitally_signed
  handshake :: "quic_config \<Rightarrow> (unit, string) result \<Rightarrow> (unit, string) result \<Rightarrow> (conn, connection_error) result"
  client_open_bi :: "(unit, connection_error) result"
  auth_sent :: "(unit, error) result"
  reply_event :: "'u auth_event"

definition v1_connect ::
    "(bytes \<Rightarrow> bytes) \<Rightarrow> 'u connect_env \<Rightarrow> v1_certificate_hash \<Rightarrow> 'auth egress_obj \<Rightarrow> counter_store \<Rightarrow>
      ('u tunnel, error) result \<times> 'u frame_v1 list \<times> quic_call list \<times> bool \<times> counter_store" where
  "v1_connect sha256 env self boxed st =
     (case certificate_hash_verifier_new (default_provider env) (vc_certificate_hash self) of
        Err e \<Rightarrow> (Err e, [], [], False, st)
      | Panic \<Rightarrow> (Panic, [], [], False, st)
      | Ok verifier \<Rightarrow>
          (case quic_client_config env of
             Err e \<Rightarrow> (Err (from_no_initial_cipher_suite e), [], [], False, st)
           | Panic \<Rightarrow> (Panic, [], [], False, st)
           | Ok _ \<Rightarrow>
               (case client_endpoint env of
                  Err e \<Rightarrow> (Err (from_io_error e), [], [], False, st)
                | Panic \<Rightarrow> (Panic, [], [], False, st)
                | Ok _ \<Rightarrow>
                    (case connect_with env client_quic_config (vc_server_address self) (vc_server_name self) of
                       Err e \<Rightarrow> (Err (from_connect_error e), [], [], False, st)
                     | Panic \<Rightarrow> (Panic, [], [], False, st)
                     | Ok _ \<Rightarrow>
                         (case handshake env client_quic_config
                             (verify_server_cert sha256 verifier (server_certificate env))
                             (verify_tls13_signature (default_provider env) (transcript env)
                                (server_certificate env) (server_signature env)) of
                            Err e \<Rightarrow> (Err (from_connection_error e), [], [], False, st)
                          | Panic \<Rightarrow> (Panic, [], [], False, st)
                          | Ok connection \<Rightarrow>
                              handle_client_protocol_v1_auth connection (vc_auth_key self)
                                (egress_obj_ingress_id boxed) (vc_client_counter self)
                                (client_open_bi env) (auth_sent env) (reply_event env) st)))))"

section \<open>Properties\<close>

text \<open>
  What the client relies on of the TLS and QUIC libraries: a handshake whose certificate the
  verifier refuses fails with the transport error that they use for it, and none succeeds
  with a signature that was refused.
\<close>

definition handshake_contract ::
    "(quic_config \<Rightarrow> (unit, string) result \<Rightarrow> (unit, string) result \<Rightarrow> (conn, connection_error) result) \<Rightarrow> bool" where
  "handshake_contract h \<longleftrightarrow>
     (\<forall>q msg v. \<exists>msg'. h q (Err msg) v = Err (TransportError CERTIFICATE_HASH_MISMATCH_CODE msg')) \<and>
     (\<forall>q v c. h q (Ok ()) v = Ok c \<longrightarrow> v = Ok ())"

text \<open>The server has shown that it holds the key of the certificate it presents.\<close>

definition holds_key :: "'u connect_env \<Rightarrow> bool" where
  "holds_key env \<longleftrightarrow> (\<exists>p. default_provider env = Some p \<and>
     provider_tls13 p (transcript env) (server_certificate env) (server_signature env) = Ok ())"

text \<open>The library calls before the handshake succeed.\<close>

definition reaches_handshake :: "'u connect_env \<Rightarrow> v1_certificate_hash \<Rightarrow> bool" where
  "reaches_handshake env v \<longleftrightarrow> default_provider env \<noteq> None \<and> is_ok (quic_client_config env) \<and>
     is_ok (client_endpoint env) \<and>
     is_ok (connect_with env client_quic_config (vc_server_address v) (vc_server_name v))"

definition sample_provider :: crypto_provider where
  "sample_provider = \<lparr>provider_schemes = [2052], provider_tls12 = (\<lambda>m c d. Ok ()),
     provider_tls13 = (\<lambda>m c d. if dss_signature d = c then Ok () else Err ''bad signature'')\<rparr>"

definition sample_connect :: "nat connect_env" where
  "sample_connect = \<lparr>default_provider = Some sample_provider, quic_client_config = Ok (), client_endpoint = Ok (),
     connect_with = (\<lambda>q a n. Ok ()), server_certificate = [1, 2], transcript = [5],
     server_signature = \<lparr>dss_scheme = 2052, dss_signature = [1, 2]\<rparr>,
     handshake = (\<lambda>q v w. case v of
         Ok _ \<Rightarrow> (case w of Ok _ \<Rightarrow> Ok 4 | _ \<Rightarrow> Err (TransportError 307 ''decrypt error''))
       | _ \<Rightarrow> Err (TransportError CERTIFICATE_HASH_MISMATCH_CODE ''bad certificate'')),
     client_open_bi = Ok (), auth_sent = Ok (), reply_event = AuthTimeout\<rparr>"

definition sample_v1 :: v1_certificate_hash where
  "sample_v1 = v1_certificate_hash_new 0 (AuthKey [107]) (SocketAddrV4 [10, 0, 0, 2] 443) [104] [9]"

lemma connect_to_handshake:
  assumes "reaches_handshake env v" and "default_provider env = Some p"
  shows "v1_connect sha256 env v boxed st =
    (case handshake env client_quic_config
        (if hash_certificate sha256 (server_certificate env) = vc_certificate_hash v then Ok ()
         else Err ''certificate hash mismatch'')
        (provider_tls13 p (transcript env) (server_certificate env) (server_signature env)) of
       Err e \<Rightarrow> (Err (from_connection_error e), [], [], False, st)
     | Panic \<Rightarrow> (Panic, [], [], False, st)
     | Ok c \<Rightarrow> handle_client_protocol_v1_auth c (vc_auth_key v) (egress_obj_ingress_id boxed)
         (vc_client_counter v) (client_open_bi env) (auth_sent env) (reply_event env) st)"
  using assms
  by (auto simp: v1_connect_def reaches_handshake_def certificate_hash_verifier_new_def verify_server_cert_def
      verify_tls13_signature_def hash_certificate_def is_ok_def Let_def split: result.splits)

lemma connect_before_handshake:
  assumes "\<not> reaches_handshake env v"
  shows "\<exists>r. v1_connect sha256 env v boxed st = (r, [], [], False, st) \<and> \<not> is_ok r"
  using assms
  by (auto simp: v1_connect_def reaches_handshake_def certificate_hash_verifier_new_def is_ok_def
      split: result.splits option.splits)

text \<open>
  C9. Certificate pinning: a server that presents a certificate with another hash than the
  configured one, or that does not sign the handshake with the key of the certificate it
  presents, is sent no frame at all, in particular not the key; the client has no tunnel and
  spawns no task. Another certificate is reported as the TLS error, if everything up to the
  handshake worked; a refused signature is an error too, whose kind depends on the TLS library.
\<close>

theorem client_pins_certificate:
  assumes "handshake_contract (handshake env)"
    and "hash_certificate sha256 (server_certificate env) \<noteq> vc_certificate_hash v \<or> \<not> holds_key env"
  shows "\<exists>r. v1_connect sha256 env v boxed st = (r, [], [], False, st) \<and> \<not> is_ok r \<and>
    (reaches_handshake env v \<and> hash_certificate sha256 (server_certificate env) \<noteq> vc_certificate_hash v \<longrightarrow>
       (\<exists>b. r = Err (TLS b)))"
proof (cases "reaches_handshake env v")
  case False
  then show ?thesis using connect_before_handshake by blast
next
  case True
  then obtain p where p: "default_provider env = Some p" by (auto simp: reaches_handshake_def)
  note connect = connect_to_handshake [OF True p, of sha256 boxed st]
  let ?h = "handshake env client_quic_config"
  show ?thesis
  proof (cases "hash_certificate sha256 (server_certificate env) = vc_certificate_hash v")
    case False
    obtain msg where "?h (Err ''certificate hash mismatch'')
        (provider_tls13 p (transcript env) (server_certificate env) (server_signature env)) =
        Err (TransportError CERTIFICATE_HASH_MISMATCH_CODE msg)"
      using assms(1) by (meson handshake_contract_def)
    with False show ?thesis by (simp add: connect from_connection_error_def)
  next
    case same: True
    then have "provider_tls13 p (transcript env) (server_certificate env) (server_signature env) \<noteq> Ok ()"
      using assms(2) p by (simp add: holds_key_def)
    moreover have "w = Ok ()" if "?h (Ok ()) w = Ok c" for w c
      using assms(1) that unfolding handshake_contract_def by blast
    ultimately have "\<not> is_ok (?h (Ok ()) (provider_tls13 p (transcript env) (server_certificate env) (server_signature env)))"
      unfolding is_ok_iff by blast
    then show ?thesis using same by (auto simp: connect is_ok_def split: result.splits)
  qed
qed

theorem client_pins_certificate_witness:
  "\<exists>r b. v1_connect (\<lambda>bs. bs) sample_connect sample_v1 (TcpE sample_egress) empty_store =
      (r, [], [], False, empty_store) \<and> r = Err (TLS b)"
proof -
  have "handshake_contract (handshake sample_connect)"
    by (simp add: handshake_contract_def sample_connect_def split: result.split)
  moreover have "hash_certificate (\<lambda>bs. bs) (server_certificate sample_connect) \<noteq> vc_certificate_hash sample_v1"
    by (simp add: hash_certificate_def sample_connect_def sample_v1_def v1_certificate_hash_new_def)
  moreover have "reaches_handshake sample_connect sample_v1"
    by (simp add: reaches_handshake_def sample_connect_def)
  ultimately show ?thesis
    using client_pins_certificate [of sample_connect "\<lambda>bs. bs" sample_v1 "TcpE sample_egress" empty_store] by blast
qed

end
