(* ===== verification/Certificates.thy ===== *)
theory Certificates
  imports Config Authentication
begin

text \<open>
  The server's certificate: \<^verbatim>\<open>utils.rs\<close> of the command line program, with \<^verbatim>\<open>common/utils.rs\<close> of the
  library, loads it or generates a new one. Files are a map from paths to contents; the PEM
  parser and the certificate generator are a parameter.
\<close>

section \<open>Loading and generating\<close>

type_synonym files = "rust_str \<rightharpoonup> bytes"

record pki =
  cert_from_pem :: "bytes \<Rightarrow> bytes option"
  key_from_pem :: "bytes \<Rightarrow> bytes option"
  simple_self_signed :: "rust_str \<Rightarrow> (bytes \<times> bytes \<times> bytes \<times> bytes, string) result"

text \<open>The generator yields the certificate and the key, each in DER and in PEM.\<close>

definition generate_self_signed_certificate ::
    "(bytes \<Rightarrow> bytes) \<Rightarrow> pki \<Rightarrow> rust_str \<Rightarrow> (bytes \<times> bytes \<times> bytes \<times> bytes \<times> bytes, 'e) result" where
  "generate_self_signed_certificate sha256 P subject_alt_name =
     and_then (unwrap (simple_self_signed P subject_alt_name)) (\<lambda>(cert_der, key, cert_pem, key_pem).
     Ok (cert_der, key, hash_certificate sha256 cert_der, cert_pem, key_pem))"

text \<open>\<open>write\<close> is the result of writing a path; the contents are there afterwards if it succeeds.\<close>

definition load_or_generate_self_signed_certificate ::
    "(bytes \<Rightarrow> bytes) \<Rightarrow> pki \<Rightarrow> (rust_str \<Rightarrow> (unit, io_error) result) \<Rightarrow> tls_config \<Rightarrow> files \<Rightarrow>
      (bytes \<times> bytes \<times> bytes, 'e) result \<times> files" where
  "load_or_generate_self_signed_certificate sha256 P write tls files =
     (case (Option.bind (files (cert_pem_path tls)) (cert_from_pem P),
            Option.bind (files (key_pem_path tls)) (key_from_pem P)) of
        (Some cert, Some key) \<Rightarrow> (Ok (cert, key, hash_certificate sha256 cert), files)
      | _ \<Rightarrow>
          (case generate_self_signed_certificate sha256 P (cert_subject_alt_name tls) :: (_, unit) result of
             Ok (cert, key, cert_hash, cert_pem, key_pem) \<Rightarrow>
               (case write (cert_pem_path tls) of
                  Ok _ \<Rightarrow>
                    (let files = files(cert_pem_path tls \<mapsto> cert_pem) in
                     case write (key_pem_path tls) of
                       Ok _ \<Rightarrow> (Ok (cert, key, cert_hash), files(key_pem_path tls \<mapsto> key_pem))
                     | _ \<Rightarrow> (Panic, files))
                | _ \<Rightarrow> (Panic, files))
           | _ \<Rightarrow> (Panic, files)))"

section \<open>Certificates across restarts\<close>

text \<open>What is relied on: what the generator writes in PEM, the parser reads back.\<close>

definition pki_contract :: "pki \<Rightarrow> bool" where
  "pki_contract P \<longleftrightarrow> (\<forall>name cert key cert_pem key_pem.
     simple_self_signed P name = Ok (cert, key, cert_pem, key_pem) \<longrightarrow>
       cert_from_pem P cert_pem = Some cert \<and> key_from_pem P key_pem = Some key)"

lemma load_Ok:
  assumes "pki_contract P" and "cert_pem_path tls \<noteq> key_pem_path tls"
    and "load_or_generate_self_signed_certificate sha256 P write tls files = (Ok (cert, key, h), files')"
  shows "Option.bind (files' (cert_pem_path tls)) (cert_from_pem P) = Some cert \<and>
    Option.bind (files' (key_pem_path tls)) (key_from_pem P) = Some key \<and> h = hash_certificate sha256 cert"
  using assms
  by (auto simp: load_or_generate_self_signed_certificate_def generate_self_signed_certificate_def pki_contract_def
      and_then_iffs Let_def split: option.splits result.splits)

section \<open>Properties\<close>

text \<open>
  A readable certificate whose key file cannot be read (it is missing, or not in the format
  the parser takes) is replaced: both files are overwritten with a new pair.
\<close>

lemma readable_certificate_overwritten:
  assumes "Option.bind (files (key_pem_path tls)) (key_from_pem P) = None"
    and "simple_self_signed P (cert_subject_alt_name tls) = Ok (cert, key, cert_pem, key_pem)"
    and "write (cert_pem_path tls) = Ok ()" and "write (key_pem_path tls) = Ok ()"
    and "cert_pem_path tls \<noteq> key_pem_path tls"
  shows "snd (load_or_generate_self_signed_certificate sha256 P write tls files) (cert_pem_path tls) = Some cert_pem"
  using assms
  by (simp add: load_or_generate_self_signed_certificate_def generate_self_signed_certificate_def Let_def
      split: option.split)

definition sample_pki :: pki where
  "sample_pki = \<lparr>cert_from_pem = (\<lambda>bs. Some bs), key_from_pem = (\<lambda>bs. Some bs),
     simple_self_signed = (\<lambda>name. Ok (name, [7], name, [7]))\<rparr>"

definition sample_tls :: tls_config where
  "sample_tls = \<lparr>cert_pem_path = [1], key_pem_path = [2], cert_subject_alt_name = [3]\<rparr>"

text \<open>
  C40. The certificate survives restarts: once a server has loaded or generated its
  certificate, every later start with the files it left finds the same certificate, key and
  hash, so the hash that clients pin stays valid, and writes nothing.
\<close>

theorem certificate_survives_restart:
  assumes "pki_contract P" and "cert_pem_path tls \<noteq> key_pem_path tls"
    and "load_or_generate_self_signed_certificate sha256 P write tls files = (Ok (cert, key, h) :: (_, 'e) result, files')"
  shows "load_or_generate_self_signed_certificate sha256 P write' tls files' = (Ok (cert, key, h) :: (_, 'e) result, files') \<and>
    (\<forall>p v. certificate_hash_verifier_new (Some p) h = (Ok v :: (_, unit) result) \<longrightarrow> verify_server_cert sha256 v cert = Ok ())"
  using load_Ok [OF assms]
  by (simp add: load_or_generate_self_signed_certificate_def verify_server_cert_def hash_certificate_def
      certificate_hash_verifier_new_def Let_def)

theorem certificate_survives_restart_witness:
  "\<exists>files'. load_or_generate_self_signed_certificate (\<lambda>bs. bs) sample_pki (\<lambda>_. Ok ()) sample_tls Map.empty =
      (Ok ([3], [7], [3]) :: (_, unit) result, files') \<and>
    fst (load_or_generate_self_signed_certificate (\<lambda>bs. bs) sample_pki (\<lambda>_. Panic) sample_tls files') = (Ok ([3], [7], [3]) :: (_, unit) result)"
proof -
  let ?files = "[[1] \<mapsto> [3], [2] \<mapsto> [7]] :: files"
  have "pki_contract sample_pki" by (simp add: pki_contract_def sample_pki_def)
  moreover have "cert_pem_path sample_tls \<noteq> key_pem_path sample_tls" by (simp add: sample_tls_def)
  moreover have first: "load_or_generate_self_signed_certificate (\<lambda>bs. bs) sample_pki (\<lambda>_. Ok ()) sample_tls Map.empty =
      (Ok ([3], [7], [3]) :: (_, unit) result, ?files)"
    by (simp add: load_or_generate_self_signed_certificate_def generate_self_signed_certificate_def sample_pki_def
        sample_tls_def hash_certificate_def)
  ultimately show ?thesis
    using certificate_survives_restart [of sample_pki sample_tls "\<lambda>bs. bs" "\<lambda>_. Ok ()" Map.empty "[3]" "[7]" "[3]" ?files
        "\<lambda>_. Panic"] by fastforce
qed

end
