(* ===== verification/Tunnel_Pool.thy ===== *)
theory Tunnel_Pool
  imports Tunnel Frames_V1
begin

text \<open>
  What the TCP and the UDP ingress share: a vector of connected tunnels from which each new
  connection or datagram takes the next one in turn, and from which a tunnel is removed when
  it closes. The two ingresses repeat this code; the locales state it as an interface, with
  the lemmas proved once, and each ingress interprets them on its own definitions.
\<close>

section \<open>Round robin\<close>

text \<open>The tunnels chosen by \<open>n\<close> calls one after another.\<close>

fun picks :: "('s \<Rightarrow> 't option \<times> 's) \<Rightarrow> nat \<Rightarrow> 's \<Rightarrow> 't option list" where
  "picks pick 0 s = []"
| "picks pick (Suc n) s = (let (t, s') = pick s in t # picks pick n s')"

locale round_robin =
  fixes tunnels_of :: "'s \<Rightarrow> 't list"
    and rotation_of :: "'s \<Rightarrow> usize"
    and pick :: "'s \<Rightarrow> 't option \<times> 's"
  assumes pick_empty: "tunnels_of s = [] \<Longrightarrow> pick s = (None, s)"
    and pick_single: "tunnels_of s = [t] \<Longrightarrow> pick s = (Some t, s)"
    and pick_many: "2 \<le> length (tunnels_of s) \<Longrightarrow>
      fst (pick s) = Some (tunnels_of s ! (unat (rotation_of s) mod length (tunnels_of s)))"
    and pick_next: "2 \<le> length (tunnels_of s) \<Longrightarrow> rotation_of (snd (pick s)) = rotation_of s + 1"
    and pick_frame: "tunnels_of (snd (pick s)) = tunnels_of s"
begin

lemma pick_member: "fst (pick s) = Some t \<Longrightarrow> t \<in> set (tunnels_of s)"
proof -
  assume p: "fst (pick s) = Some t"
  consider "tunnels_of s = []" | u where "tunnels_of s = [u]" | "2 \<le> length (tunnels_of s)"
    by (cases "tunnels_of s" rule: remdups_adj.cases) auto
  then show ?thesis
  proof cases
    case 3
    then have "0 < length (tunnels_of s)" by linarith
    then have "unat (rotation_of s) mod length (tunnels_of s) < length (tunnels_of s)"
      by (rule mod_less_divisor)
    with p 3 show ?thesis using pick_many [of s] nth_mem by fastforce
  qed (use p pick_empty pick_single in auto)
qed

lemma pick_None: "fst (pick s) = None \<longleftrightarrow> tunnels_of s = []"
proof -
  consider "tunnels_of s = []" | u where "tunnels_of s = [u]" | "2 \<le> length (tunnels_of s)"
    by (cases "tunnels_of s" rule: remdups_adj.cases) auto
  then show ?thesis by cases (use pick_empty pick_single pick_many in auto)
qed

lemma picks_nth:
  assumes "2 \<le> length (tunnels_of s)" and "unat (rotation_of s) + n \<le> 2 ^ 64"
  shows "picks pick n s =
    map (\<lambda>j. Some (tunnels_of s ! ((unat (rotation_of s) + j) mod length (tunnels_of s)))) [0..<n]"
  using assms
proof (induction n arbitrary: s)
  case 0
  then show ?case by simp
next
  case (Suc n)
  obtain t s' where p: "pick s = (t, s')" by (meson surj_pair)
  have ts: "tunnels_of s' = tunnels_of s" using pick_frame [of s] p by simp
  have t: "t = Some (tunnels_of s ! (unat (rotation_of s) mod length (tunnels_of s)))"
    using pick_many [OF Suc.prems(1)] p by simp
  have r: "rotation_of s' = rotation_of s + 1" using pick_next [OF Suc.prems(1)] p by simp
  show ?case
  proof (cases n)
    case 0
    then show ?thesis using p t by simp
  next
    case (Suc m)
    then have lt: "unat (rotation_of s) + 1 < 2 ^ 64" using Suc.prems(2) by simp
    then have u: "unat (rotation_of s') = unat (rotation_of s) + 1"
      by (simp add: r unat_word_ariths)
    have "picks pick n s' = map (\<lambda>j. Some (tunnels_of s ! ((unat (rotation_of s) + 1 + j)
        mod length (tunnels_of s)))) [0..<n]"
      using Suc.IH [of s'] Suc.prems by (simp add: ts u)
    then show ?thesis
      using p t by (simp add: upt_conv_Cons map_Suc_upt [symmetric] comp_def del: upt_Suc)
  qed
qed

text \<open>A full turn visits every tunnel once, starting where the rotation stands.\<close>

lemma full_turn:
  assumes "2 \<le> length (tunnels_of s)" and "unat (rotation_of s) + length (tunnels_of s) \<le> 2 ^ 64"
  shows "picks pick (length (tunnels_of s)) s =
    map Some (rotate (unat (rotation_of s)) (tunnels_of s))"
  unfolding picks_nth [OF assms]
  by (rule nth_equalityI) (simp_all add: nth_rotate add.commute)

end

section \<open>The pool\<close>

locale tunnel_pool = round_robin tunnels_of rotation_of pick
  for tunnels_of :: "'s \<Rightarrow> 'u tunnel list"
    and rotation_of :: "'s \<Rightarrow> usize"
    and pick :: "'s \<Rightarrow> 'u tunnel option \<times> 's" +
  fixes push :: "'u tunnel \<Rightarrow> 's \<Rightarrow> 's"
    and forget :: "'u \<Rightarrow> 's \<Rightarrow> 's"
  assumes push_tunnels: "tunnels_of (push t s) = tunnels_of s @ [t]"
    and push_rotation: "rotation_of (push t s) = rotation_of s"
    and forget_tunnels: "tunnels_of (forget i s) =
      (case position (\<lambda>t. tunnel_id t = i) (tunnels_of s) of
         None \<Rightarrow> tunnels_of s | Some k \<Rightarrow> swap_remove (tunnels_of s) k)"
    and forget_rotation: "rotation_of (forget i s) = rotation_of s"
begin

abbreviation ids :: "'s \<Rightarrow> 'u list" where
  "ids s \<equiv> map tunnel_id (tunnels_of s)"

lemma forget_mset:
  assumes "distinct (ids s)"
  shows "mset (tunnels_of (forget i s)) = mset (filter (\<lambda>t. tunnel_id t \<noteq> i) (tunnels_of s))"
proof (cases "position (\<lambda>t. tunnel_id t = i) (tunnels_of s)")
  case None
  then have "\<forall>t \<in> set (tunnels_of s). tunnel_id t \<noteq> i" by (simp add: position_None)
  with None show ?thesis by (simp add: forget_tunnels filter_id_conv)
next
  case (Some k)
  note k = position_Some [OF Some]
  let ?ts = "tunnels_of s"
  have split: "?ts = take k ?ts @ ?ts ! k # drop (Suc k) ?ts" using k by (simp add: id_take_nth_drop)
  have d: "distinct (map tunnel_id (take k ?ts @ ?ts ! k # drop (Suc k) ?ts))"
    using assms by (subst split [symmetric])
  have out: "\<forall>t \<in> set (take k ?ts) \<union> set (drop (Suc k) ?ts). tunnel_id t \<noteq> i"
    using d k by (force simp: image_iff)
  have "mset ?ts = mset (take k ?ts) + {#?ts ! k#} + mset (drop (Suc k) ?ts)"
    by (subst split) simp
  moreover have "filter (\<lambda>t. tunnel_id t \<noteq> i) ?ts = take k ?ts @ drop (Suc k) ?ts"
    by (subst split) (use out k in \<open>simp add: filter_id_conv\<close>)
  ultimately show ?thesis using k Some by (simp add: forget_tunnels mset_swap_remove)
qed

lemma forget_set:
  "distinct (ids s) \<Longrightarrow> set (tunnels_of (forget i s)) = {t \<in> set (tunnels_of s). tunnel_id t \<noteq> i}"
  using mset_eq_setD [OF forget_mset [of s i]] by simp

lemma forget_distinct:
  assumes "distinct (ids s)"
  shows "distinct (ids (forget i s))"
proof -
  have "mset (ids (forget i s)) = mset (map tunnel_id (filter (\<lambda>t. tunnel_id t \<noteq> i) (tunnels_of s)))"
    using forget_mset [OF assms] by (metis mset_map)
  moreover have "distinct (map tunnel_id (filter (\<lambda>t. tunnel_id t \<noteq> i) (tunnels_of s)))"
    using assms by (rule distinct_map_filter)
  ultimately show ?thesis using mset_eq_imp_distinct_iff by blast
qed

lemma push_distinct:
  "distinct (ids s) \<Longrightarrow> tunnel_id t \<notin> set (ids s) \<Longrightarrow> distinct (ids (push t s))"
  by (simp add: push_tunnels)

text \<open>A forgotten tunnel is chosen no more.\<close>

lemma forgotten_not_picked:
  "distinct (ids s) \<Longrightarrow> fst (pick (forget i s)) = Some t \<Longrightarrow> tunnel_id t \<noteq> i"
  using pick_member [of "forget i s" t] by (simp add: forget_set)

end

section \<open>Assigning and closing tunnels concurrently\<close>

text \<open>
  \<^verbatim>\<open>assign_tunnel\<close> spawns a watcher for the tunnel and only then pushes the tunnel; the
  watcher runs once the tunnel is closed, and may do so before the push. The steps, in any
  order the scheduler chooses: \<open>spawn\<close> and \<open>push\<close> are the two halves of \<^verbatim>\<open>assign_tunnel\<close>,
  \<open>close\<close> is the connection ending, \<open>watch\<close> the watcher's turn. The field \<open>raced\<close> records the
  watchers that ran before the push of their tunnel.
\<close>

record ('s, 'u) assign_sys =
  ingress_state :: 's
  assigned :: "'u tunnel set"
  to_push :: "'u tunnel set"
  watching :: "'u tunnel set"
  closed_ids :: "'u set"
  raced :: "'u tunnel set"

definition assign_init :: "'s \<Rightarrow> ('s, 'u) assign_sys" where
  "assign_init s = \<lparr>ingress_state = s, assigned = {}, to_push = {}, watching = {},
     closed_ids = {}, raced = {}\<rparr>"

inductive assign_step ::
    "('u tunnel \<Rightarrow> 's \<Rightarrow> 's) \<Rightarrow> ('u \<Rightarrow> 's \<Rightarrow> 's) \<Rightarrow> ('s, 'u) assign_sys \<Rightarrow> ('s, 'u) assign_sys \<Rightarrow> bool"
  for push forget where
  spawn: "tunnel_id t \<notin> tunnel_id ` assigned a \<Longrightarrow>
    assign_step push forget a (a\<lparr>assigned := insert t (assigned a), to_push := insert t (to_push a),
      watching := insert t (watching a)\<rparr>)"
| push: "t \<in> to_push a \<Longrightarrow>
    assign_step push forget a (a\<lparr>ingress_state := push t (ingress_state a), to_push := to_push a - {t}\<rparr>)"
| close: "i \<in> tunnel_id ` assigned a \<Longrightarrow>
    assign_step push forget a (a\<lparr>closed_ids := insert i (closed_ids a)\<rparr>)"
| watch: "t \<in> watching a \<Longrightarrow> tunnel_id t \<in> closed_ids a \<Longrightarrow>
    assign_step push forget a (a\<lparr>ingress_state := forget (tunnel_id t) (ingress_state a),
      watching := watching a - {t}, raced := (if t \<in> to_push a then insert t (raced a) else raced a)\<rparr>)"

inductive assign_reachable ::
    "('u tunnel \<Rightarrow> 's \<Rightarrow> 's) \<Rightarrow> ('u \<Rightarrow> 's \<Rightarrow> 's) \<Rightarrow> 's \<Rightarrow> ('s, 'u) assign_sys \<Rightarrow> bool"
  for push forget s where
  init: "assign_reachable push forget s (assign_init s)"
| step: "assign_reachable push forget s a \<Longrightarrow> assign_step push forget a b \<Longrightarrow>
    assign_reachable push forget s b"

context tunnel_pool
begin

text \<open>
  The invariant: ids are unique among the tunnels assigned; each assigned tunnel is waiting
  for its push, in the pool, or gone because it closed; a tunnel without a watcher is
  closed; a tunnel in the pool without a watcher had its watcher run too early.
\<close>

definition assign_inv :: "('s, 'u) assign_sys \<Rightarrow> bool" where
  "assign_inv a \<longleftrightarrow>
     inj_on tunnel_id (assigned a) \<and>
     to_push a \<subseteq> assigned a \<and> watching a \<subseteq> assigned a \<and>
     set (tunnels_of (ingress_state a)) \<subseteq> assigned a - to_push a \<and>
     distinct (ids (ingress_state a)) \<and>
     (\<forall>t \<in> assigned a. t \<in> watching a \<or> tunnel_id t \<in> closed_ids a) \<and>
     (\<forall>t \<in> assigned a - to_push a. t \<in> set (tunnels_of (ingress_state a)) \<or> t \<notin> watching a) \<and>
     (\<forall>t \<in> to_push a \<union> set (tunnels_of (ingress_state a)). t \<in> watching a \<or> t \<in> raced a)"

lemma assign_inv_init: "tunnels_of s = [] \<Longrightarrow> assign_inv (assign_init s)"
  by (simp add: assign_inv_def assign_init_def)

lemma assign_inv_step: "assign_step push forget a b \<Longrightarrow> assign_inv a \<Longrightarrow> assign_inv b"
proof (induction rule: assign_step.induct)
  case (spawn t a)
  then show ?case by (auto simp: assign_inv_def)
next
  case (push t a)
  then have "tunnel_id t \<notin> set (ids (ingress_state a))"
    by (auto simp: assign_inv_def dest: inj_onD)
  with push show ?case by (auto simp: assign_inv_def push_tunnels)
next
  case (close i a)
  then show ?case by (auto simp: assign_inv_def)
next
  case (watch t a)
  then have d: "distinct (ids (ingress_state a))" by (simp add: assign_inv_def)
  have other: "tunnel_id u = tunnel_id t \<Longrightarrow> u = t" if "u \<in> assigned a" for u
    using watch that by (auto simp: assign_inv_def dest: inj_onD)
  show ?case using watch other
    by (auto simp: assign_inv_def forget_set [OF d] forget_distinct [OF d])
qed

lemma assign_reachable_inv:
  "assign_reachable push forget s a \<Longrightarrow> tunnels_of s = [] \<Longrightarrow> assign_inv a"
  by (induction rule: assign_reachable.induct) (auto intro: assign_inv_init assign_inv_step)

text \<open>
  When every assignment has completed, every watcher of a closed tunnel has run and none
  ran before its push, the pool holds exactly the assigned tunnels that are open.
\<close>

lemma settled_pool:
  assumes "assign_reachable push forget s a" and "tunnels_of s = []"
    and "to_push a = {}" and "\<forall>t \<in> watching a. tunnel_id t \<notin> closed_ids a" and "raced a = {}"
  shows "set (tunnels_of (ingress_state a)) = {t \<in> assigned a. tunnel_id t \<notin> closed_ids a}"
  using assign_reachable_inv [OF assms(1,2)] assms(3-5) by (auto simp: assign_inv_def)

text \<open>An open tunnel whose assignment has completed is never lost.\<close>

lemma open_tunnel_kept:
  assumes "assign_reachable push forget s a" and "tunnels_of s = []"
    and "t \<in> assigned a" and "t \<notin> to_push a" and "tunnel_id t \<notin> closed_ids a"
  shows "t \<in> set (tunnels_of (ingress_state a))"
  using assign_reachable_inv [OF assms(1,2)] assms(3-5) by (auto simp: assign_inv_def)

end

end
