(* ===== verification/Tcp_Ingress.thy ===== *)
theory Tcp_Ingress
  imports Tunnel_Pool Lifecycle
begin

text \<open>
  \<^verbatim>\<open>server/ingress/tcp_ingress.rs\<close>. The state behind the ingress's locks and atomics is a
  record; an operation takes it and returns it updated. Tasks that an operation spawns are
  part of its result, and each task has its own definition: the accept loop
  (\<open>tcp_handle_listener\<close>) and the watcher that removes a closed tunnel (\<open>tcp_forget_tunnel\<close>).
  The outcomes of system calls are arguments.
\<close>

type_synonym listener = nat

record 'u tcp_ingress =
  tcp_id :: ingress_id
  tcp_auth_key :: auth_key
  tcp_socket_addr :: socket_addr
  tcp_tunnels :: "'u tunnel list"
  tcp_listener :: "listener option"
  tcp_listener_socket_addr :: "socket_addr option"
  tcp_tunnel_rotation :: usize

datatype 'u tcp_task = WatchClosed "'u tunnel" | HandleListener listener

section \<open>Operations\<close>

definition tcp_ingress_id :: "'u tcp_ingress \<Rightarrow> ingress_id" where
  [simp]: "tcp_ingress_id self = tcp_id self"

definition tcp_ingress_auth_key :: "'u tcp_ingress \<Rightarrow> auth_key" where
  [simp]: "tcp_ingress_auth_key self = tcp_auth_key self"

definition tcp_ingress_new :: "ingress_id \<Rightarrow> auth_key \<Rightarrow> socket_addr \<Rightarrow> 'u tcp_ingress" where
  "tcp_ingress_new i auth_key socket_addr =
     \<lparr>tcp_id = i, tcp_auth_key = auth_key, tcp_socket_addr = socket_addr, tcp_tunnels = [],
      tcp_listener = None, tcp_listener_socket_addr = None, tcp_tunnel_rotation = 0\<rparr>"

text \<open>\<^verbatim>\<open>assign_tunnel\<close> spawns the watcher and then pushes the tunnel.\<close>

definition tcp_push_tunnel :: "'u tunnel \<Rightarrow> 'u tcp_ingress \<Rightarrow> 'u tcp_ingress" where
  "tcp_push_tunnel tunnel s = s\<lparr>tcp_tunnels := tcp_tunnels s @ [tunnel]\<rparr>"

definition tcp_assign_tunnel ::
    "'u tunnel \<Rightarrow> 'u tcp_ingress \<Rightarrow> (unit, error) result \<times> 'u tcp_ingress \<times> 'u tcp_task list" where
  "tcp_assign_tunnel tunnel s = (Ok (), tcp_push_tunnel tunnel s, [WatchClosed tunnel])"

text \<open>What the watcher does once the tunnel is closed.\<close>

definition tcp_forget_tunnel :: "'u \<Rightarrow> 'u tcp_ingress \<Rightarrow> 'u tcp_ingress" where
  "tcp_forget_tunnel i s =
     (case position (\<lambda>t. tunnel_id t = i) (tcp_tunnels s) of
        Some k \<Rightarrow> s\<lparr>tcp_tunnels := swap_remove (tcp_tunnels s) k\<rparr>
      | None \<Rightarrow> s)"

text \<open>\<open>bound\<close> is the result of binding the listener, \<open>local_addr\<close> that of asking its address.\<close>

definition tcp_start ::
    "(listener, io_error) result \<Rightarrow> (socket_addr, io_error) result \<Rightarrow> 'u tcp_ingress \<Rightarrow>
      (unit, error) result \<times> 'u tcp_ingress \<times> 'u tcp_task list" where
  "tcp_start bound local_addr s =
     (if tcp_listener s \<noteq> None then (Err IngressAlreadyListening, s, [])
      else case bound of
        Err e \<Rightarrow> (Err (from_io_error e), s, [])
      | Panic \<Rightarrow> (Panic, s, [])
      | Ok l \<Rightarrow>
          (case local_addr of
             Err e \<Rightarrow> (Err (from_io_error e), s, [])
           | Panic \<Rightarrow> (Panic, s, [])
           | Ok a \<Rightarrow>
               (Ok (), s\<lparr>tcp_listener_socket_addr := Some a, tcp_listener := Some l\<rparr>,
                [HandleListener l])))"

definition tcp_stop :: "'u tcp_ingress \<Rightarrow> (unit, error) result \<times> 'u tcp_ingress" where
  "tcp_stop s = (case tcp_listener s of
     Some l \<Rightarrow> (Ok (), s\<lparr>tcp_listener := None\<rparr>)
   | None \<Rightarrow> (Err IngressNotListening, s))"

definition tcp_ingress_socket_addr :: "'u tcp_ingress \<Rightarrow> socket_addr option" where
  "tcp_ingress_socket_addr s = tcp_listener_socket_addr s"

definition tcp_get_tunnel_to_connect :: "'u tcp_ingress \<Rightarrow> 'u tunnel option \<times> 'u tcp_ingress" where
  "tcp_get_tunnel_to_connect s =
     (let tunnels = tcp_tunnels s in
      if tunnels = [] then (None, s)
      else if length tunnels = 1 then (Some (tunnels ! 0), s)
      else (Some (tunnels ! (unat (tcp_tunnel_rotation s) mod length tunnels)),
            s\<lparr>tcp_tunnel_rotation := tcp_tunnel_rotation s + 1\<rparr>))"

text \<open>
  One accepted connection: its peer address (or the error of asking), whether
  \<^verbatim>\<open>set_nodelay\<close> succeeded, and the result of opening a stream on the chosen tunnel. The
  result is the tunnel and stream handed to the byte pump.
\<close>

definition tcp_handle_stream ::
    "(unit, io_error) result \<Rightarrow> (socket_addr, io_error) result \<Rightarrow> (u64, connection_error) result \<Rightarrow>
      'u tcp_ingress \<Rightarrow> counter_store \<Rightarrow>
      ('u tunnel \<times> tunnel_stream \<times> socket_addr, error) result \<times> 'u tcp_ingress \<times> counter_store" where
  "tcp_handle_stream set_nodelay peer_addr open_bi s st =
     (case set_nodelay of
        Ok _ \<Rightarrow>
          (case peer_addr of
             Ok tcp_remote_addr \<Rightarrow>
               (let (chosen, s) = tcp_get_tunnel_to_connect s in
                case chosen of
                  None \<Rightarrow> (Err IngressNoTunnelConnected, s, st)
                | Some tunnel \<Rightarrow>
                    (case tunnel_create_stream tunnel open_bi st of
                       Ok (stream, st) \<Rightarrow> (Ok (tunnel, stream, tcp_remote_addr), s, st)
                     | Err e \<Rightarrow> (Err e, s, st)
                     | Panic \<Rightarrow> (Panic, s, st)))
           | Err e \<Rightarrow> (Err (from_io_error e), s, st)
           | Panic \<Rightarrow> (Panic, s, st))
      | _ \<Rightarrow> (Panic, s, st))"

text \<open>
  The accept loop over what \<^verbatim>\<open>accept\<close> returns: a connection with the result of asking its
  peer address, or an error, which ends the loop. The peer address is asked inside a
  \<^verbatim>\<open>debug!\<close> call, so only when that level is enabled; its \<^verbatim>\<open>?\<close> leaves the loop. The result
  is the connections whose handlers were spawned, and how the loop ended if it did.
\<close>

datatype accepted = Accepted nat "(socket_addr, io_error) result" | AcceptFailed

fun tcp_handle_listener ::
    "bool \<Rightarrow> accepted list \<Rightarrow> nat list \<times> (unit, error) result option" where
  "tcp_handle_listener debug [] = ([], None)"
| "tcp_handle_listener debug (AcceptFailed # es) = ([], Some (Ok ()))"
| "tcp_handle_listener debug (Accepted c peer_addr # es) =
     (case (if debug then and_then peer_addr (\<lambda>_. Ok ()) else Ok ()) of
        Ok _ \<Rightarrow> (let (cs, r) = tcp_handle_listener debug es in (c # cs, r))
      | Err e \<Rightarrow> ([], Some (Err (from_io_error e)))
      | Panic \<Rightarrow> ([], Some Panic))"

section \<open>The pool and the lifecycle\<close>

lemmas tcp_defs [model_defs] = tcp_push_tunnel_def tcp_forget_tunnel_def
  tcp_get_tunnel_to_connect_def

interpretation tcp_pool: tunnel_pool tcp_tunnels tcp_tunnel_rotation tcp_get_tunnel_to_connect
  tcp_push_tunnel tcp_forget_tunnel
  by unfold_locales (auto simp: model_defs Let_def split: option.split)

definition tcp_start_call ::
    "(listener, io_error) result \<times> (socket_addr, io_error) result \<Rightarrow> 'u tcp_ingress \<Rightarrow>
      (unit, error) result \<times> 'u tcp_ingress" where
  "tcp_start_call env s = (case tcp_start (fst env) (snd env) s of (r, s', tasks) \<Rightarrow> (r, s'))"

interpretation tcp_cycle: lifecycle "\<lambda>s. tcp_listener s \<noteq> None" tcp_start_call "\<lambda>_ :: unit. tcp_stop"
  IngressAlreadyListening IngressNotListening "\<lambda>(b, a). b \<noteq> Panic \<and> a \<noteq> Panic"
  by unfold_locales
    (auto simp: tcp_start_call_def tcp_start_def tcp_stop_def split: result.splits option.splits)

section \<open>Properties\<close>

text \<open>Concrete states for the witnesses.\<close>

definition sample_tunnel :: "nat \<Rightarrow> nat tunnel" where
  "sample_tunnel i = \<lparr>tunnel_id = i, tunnel_server_id = ServerId [115], tunnel_connection = i,
     tunnel_byte_counter = i\<rparr>"

definition sample_tcp :: "nat tcp_ingress" where
  "sample_tcp = (tcp_ingress_new (IngressId [105]) (AuthKey [107]) (SocketAddrV4 [0, 0, 0, 0] 3000))
     \<lparr>tcp_tunnels := [sample_tunnel 1, sample_tunnel 2, sample_tunnel 3], tcp_tunnel_rotation := 4\<rparr>"

text \<open>
  The accept loop, described by the connections it takes: those before the first failure of
  \<^verbatim>\<open>accept\<close> and, when debug output is on, before the first connection without a peer address.
\<close>

fun loop_takes :: "bool \<Rightarrow> accepted \<Rightarrow> bool" where
  "loop_takes debug AcceptFailed = False"
| "loop_takes debug (Accepted c peer_addr) = (debug \<longrightarrow> is_ok peer_addr)"

fun accepted_conn :: "accepted \<Rightarrow> nat" where
  "accepted_conn (Accepted c peer_addr) = c"
| "accepted_conn AcceptFailed = 0"

lemma tcp_handle_listener_takes:
  "fst (tcp_handle_listener debug es) = map accepted_conn (takeWhile (loop_takes debug) es)"
  "snd (tcp_handle_listener debug es) = None \<longleftrightarrow> list_all (loop_takes debug) es"
proof (induction debug es rule: tcp_handle_listener.induct)
  case (3 debug c peer_addr es)
  case 1
  show ?case using 3 by (cases peer_addr) (auto simp: case_prod_beta)
  case 2
  show ?case using 3 by (cases peer_addr) (auto simp: case_prod_beta)
qed auto


text \<open>
  C25. Load balancing: while the set of tunnels is unchanged and the counter does not wrap,
  as many connections as there are tunnels go to each tunnel exactly once, in the order of
  the vector and starting where the rotation stands.
\<close>

theorem tcp_round_robin_full_turn:
  assumes "2 \<le> length (tcp_tunnels s)"
    and "unat (tcp_tunnel_rotation s) + length (tcp_tunnels s) \<le> 2 ^ 64"
  shows "picks tcp_get_tunnel_to_connect (length (tcp_tunnels s)) s =
    map Some (rotate (unat (tcp_tunnel_rotation s)) (tcp_tunnels s))"
  using assms by (rule tcp_pool.full_turn)

theorem tcp_round_robin_full_turn_witness:
  "picks tcp_get_tunnel_to_connect 3 sample_tcp =
    [Some (sample_tunnel 2), Some (sample_tunnel 3), Some (sample_tunnel 1)]"
proof -
  have len: "length (tcp_tunnels sample_tcp) = 3" by (simp add: sample_tcp_def)
  have small: "unat (tcp_tunnel_rotation sample_tcp) = 4" by (simp add: sample_tcp_def)
  have "rotate 4 (tcp_tunnels sample_tcp) = [sample_tunnel 2, sample_tunnel 3, sample_tunnel 1]"
    by (simp add: sample_tcp_def rotate_drop_take)
  then show ?thesis
    using tcp_round_robin_full_turn [of sample_tcp] by (simp only: len small) simp
qed

text \<open>
  C32. Sequences of \<^verbatim>\<open>start\<close> and \<^verbatim>\<open>stop\<close> calls behave like a flag: a start is refused while
  listening, a stop is refused when not, a failed start leaves the ingress stopped, and a
  stopped ingress can be started again.
\<close>

theorem tcp_start_stop_refines:
  assumes "\<And>b a. Start (b, a) \<in> set calls \<Longrightarrow> b \<noteq> Panic \<and> a \<noteq> Panic"
  shows "spec_calls IngressAlreadyListening IngressNotListening calls
      (fst (run_calls tcp_start_call (\<lambda>_ :: unit. tcp_stop) calls s)) (tcp_listener s \<noteq> None) =
    Some (tcp_listener (snd (run_calls tcp_start_call (\<lambda>_ :: unit. tcp_stop) calls s)) \<noteq> None)"
proof -
  have "list_all tcp_cycle.env_ok calls"
    unfolding list_all_iff
  proof
    fix c assume c: "c \<in> set calls"
    show "tcp_cycle.env_ok c" by (cases c) (use assms c in auto)
  qed
  then show ?thesis by (rule tcp_cycle.run_calls_refines)
qed

theorem tcp_start_stop_refines_witness:
  "spec_calls IngressAlreadyListening IngressNotListening
      [Start (Ok 7, Ok (SocketAddrV4 [0, 0, 0, 0] 3000)), Start (Ok 8, Ok (SocketAddrV4 [0, 0, 0, 0] 3000)), Stop ()]
      [Ok (), Err IngressAlreadyListening, Ok ()] False = Some False"
  using tcp_start_stop_refines [of
    "[Start (Ok 7, Ok (SocketAddrV4 [0, 0, 0, 0] 3000)), Start (Ok 8, Ok (SocketAddrV4 [0, 0, 0, 0] 3000)), Stop ()]"
    sample_tcp]
  by (simp add: sample_tcp_def tcp_ingress_new_def tcp_start_call_def tcp_start_def tcp_stop_def)

text \<open>
  C11. However the assignments, closings and watchers of an ingress interleave: when all
  assignments have completed, the watchers of closed tunnels have run, and no watcher ran
  before the push of its tunnel, connections are spread over exactly the assigned tunnels
  that are open.
\<close>

theorem tcp_pool_holds_open_tunnels:
  assumes "assign_reachable tcp_push_tunnel tcp_forget_tunnel (tcp_ingress_new i k addr) a"
    and "to_push a = {}" and "\<forall>t \<in> watching a. tunnel_id t \<notin> closed_ids a" and "raced a = {}"
  shows "set (tcp_tunnels (ingress_state a)) = {t \<in> assigned a. tunnel_id t \<notin> closed_ids a}"
  using tcp_pool.settled_pool [OF assms(1) _ assms(2-4)] by (simp add: tcp_ingress_new_def)

text \<open>A run that assigns two tunnels and closes the first.\<close>

definition two_tunnels_one_closed :: "(nat tcp_ingress, nat) assign_sys" where
  "two_tunnels_one_closed = \<lparr>
     ingress_state = (tcp_ingress_new (IngressId [105]) (AuthKey [107]) (SocketAddrV4 [0, 0, 0, 0] 3000))
       \<lparr>tcp_tunnels := [sample_tunnel 2]\<rparr>,
     assigned = {sample_tunnel 1, sample_tunnel 2}, to_push = {}, watching = {sample_tunnel 2},
     closed_ids = {1}, raced = {}\<rparr>"

lemma sample_tunnel_simps [simp]:
  "tunnel_id (sample_tunnel i) = i"
  "sample_tunnel i = sample_tunnel j \<longleftrightarrow> i = j"
  by (auto simp: sample_tunnel_def)

lemmas assign_stepI = assign_step.spawn assign_step.push assign_step.close assign_step.watch

lemma two_tunnels_reachable:
  "assign_reachable tcp_push_tunnel tcp_forget_tunnel
     (tcp_ingress_new (IngressId [105]) (AuthKey [107]) (SocketAddrV4 [0, 0, 0, 0] 3000))
     two_tunnels_one_closed"
proof -
  let ?s = "tcp_ingress_new (IngressId [105]) (AuthKey [107]) (SocketAddrV4 [0, 0, 0, 0] 3000) :: nat tcp_ingress"
  let ?R = "assign_reachable tcp_push_tunnel tcp_forget_tunnel ?s"
  note step = assign_reachable.step
  have "?R (assign_init ?s)" by (rule assign_reachable.init)
  from step [OF this assign_step.spawn [of "sample_tunnel 1"]]
  have "?R \<lparr>ingress_state = ?s, assigned = {sample_tunnel 1}, to_push = {sample_tunnel 1},
      watching = {sample_tunnel 1}, closed_ids = {}, raced = {}\<rparr>"
    by (simp add: assign_init_def)
  from step [OF this assign_step.push [of "sample_tunnel 1"]]
  have "?R \<lparr>ingress_state = ?s\<lparr>tcp_tunnels := [sample_tunnel 1]\<rparr>, assigned = {sample_tunnel 1},
      to_push = {}, watching = {sample_tunnel 1}, closed_ids = {}, raced = {}\<rparr>"
    by (simp add: tcp_push_tunnel_def tcp_ingress_new_def)
  from step [OF this assign_step.spawn [of "sample_tunnel 2"]]
  have "?R \<lparr>ingress_state = ?s\<lparr>tcp_tunnels := [sample_tunnel 1]\<rparr>,
      assigned = {sample_tunnel 1, sample_tunnel 2}, to_push = {sample_tunnel 2},
      watching = {sample_tunnel 1, sample_tunnel 2}, closed_ids = {}, raced = {}\<rparr>"
    by (simp add: insert_commute)
  from step [OF this assign_step.push [of "sample_tunnel 2"]]
  have "?R \<lparr>ingress_state = ?s\<lparr>tcp_tunnels := [sample_tunnel 1, sample_tunnel 2]\<rparr>,
      assigned = {sample_tunnel 1, sample_tunnel 2}, to_push = {},
      watching = {sample_tunnel 1, sample_tunnel 2}, closed_ids = {}, raced = {}\<rparr>"
    by (simp add: tcp_push_tunnel_def tcp_ingress_new_def)
  from step [OF this assign_step.close [of 1]]
  have "?R \<lparr>ingress_state = ?s\<lparr>tcp_tunnels := [sample_tunnel 1, sample_tunnel 2]\<rparr>,
      assigned = {sample_tunnel 1, sample_tunnel 2}, to_push = {},
      watching = {sample_tunnel 1, sample_tunnel 2}, closed_ids = {1}, raced = {}\<rparr>"
    by simp
  from step [OF this assign_step.watch [of "sample_tunnel 1"]]
  show ?thesis
    by (simp add: two_tunnels_one_closed_def tcp_forget_tunnel_def swap_remove_def tcp_ingress_new_def
        insert_Diff_if)
qed

theorem tcp_pool_holds_open_tunnels_witness:
  "set (tcp_tunnels (ingress_state two_tunnels_one_closed)) = {sample_tunnel 2}"
proof -
  have "set (tcp_tunnels (ingress_state two_tunnels_one_closed)) =
      {t \<in> assigned two_tunnels_one_closed. tunnel_id t \<notin> closed_ids two_tunnels_one_closed}"
    by (rule tcp_pool_holds_open_tunnels [OF two_tunnels_reachable])
      (simp_all add: two_tunnels_one_closed_def)
  also have "\<dots> = {sample_tunnel 2}" by (auto simp: two_tunnels_one_closed_def)
  finally show ?thesis .
qed

text \<open>
  The watcher can win the race: if the tunnel closes after the watcher is spawned and
  before the tunnel is pushed, the watcher finds nothing to remove and ends, and the push
  then adds a closed tunnel that no task will ever remove. New connections are sent to it.
\<close>

lemma tcp_stale_tunnel_reachable:
  "\<exists>a. assign_reachable tcp_push_tunnel tcp_forget_tunnel
       (tcp_ingress_new (IngressId [105]) (AuthKey [107]) (SocketAddrV4 [0, 0, 0, 0] 3000)) a \<and>
     to_push a = {} \<and> watching a = {} \<and> closed_ids a = {1} \<and>
     fst (tcp_get_tunnel_to_connect (ingress_state a)) = Some (sample_tunnel 1)"
proof -
  let ?s = "tcp_ingress_new (IngressId [105]) (AuthKey [107]) (SocketAddrV4 [0, 0, 0, 0] 3000) :: nat tcp_ingress"
  let ?R = "assign_reachable tcp_push_tunnel tcp_forget_tunnel ?s"
  let ?t = "sample_tunnel 1"
  let ?stale = "\<lparr>ingress_state = ?s\<lparr>tcp_tunnels := [?t]\<rparr>, assigned = {?t}, to_push = {}, watching = {},
      closed_ids = {1}, raced = {?t}\<rparr>"
  note step = assign_reachable.step
  have "?R (assign_init ?s)" by (rule assign_reachable.init)
  from step [OF this assign_step.spawn [of ?t]]
  have "?R \<lparr>ingress_state = ?s, assigned = {?t}, to_push = {?t}, watching = {?t}, closed_ids = {}, raced = {}\<rparr>"
    by (simp add: assign_init_def)
  from step [OF this assign_step.close [of 1]]
  have "?R \<lparr>ingress_state = ?s, assigned = {?t}, to_push = {?t}, watching = {?t}, closed_ids = {1}, raced = {}\<rparr>"
    by simp
  from step [OF this assign_step.watch [of ?t]]
  have "?R \<lparr>ingress_state = ?s, assigned = {?t}, to_push = {?t}, watching = {}, closed_ids = {1}, raced = {?t}\<rparr>"
    by (simp add: tcp_forget_tunnel_def tcp_ingress_new_def)
  from step [OF this assign_step.push [of ?t]]
  have "?R ?stale"
    by (simp add: tcp_push_tunnel_def tcp_ingress_new_def)
  then show ?thesis by (intro exI [of _ ?stale]) (simp add: tcp_get_tunnel_to_connect_def)
qed

text \<open>
  What happens to an accepted connection, on every branch: no tunnel is an error and
  nothing else changes; otherwise the tunnel is one of the pool, and either opening the
  stream failed with the error of the connection or the pump gets a stream whose counter is
  below that tunnel's. An address error comes before any tunnel is chosen.
\<close>

lemma tcp_handle_stream_outcomes:
  assumes "store_ok st" and "\<forall>t \<in> set (tcp_tunnels s). cells st (tunnel_byte_counter t) \<noteq> None"
  shows "tcp_handle_stream (Ok ()) (Err e) ob s st = (Err (from_io_error e), s, st) \<and>
    (tcp_tunnels s = [] \<longrightarrow>
       tcp_handle_stream (Ok ()) (Ok peer) ob s st = (Err IngressNoTunnelConnected, s, st)) \<and>
    (tcp_tunnels s \<noteq> [] \<longrightarrow>
       (\<exists>t s'. tcp_get_tunnel_to_connect s = (Some t, s') \<and> t \<in> set (tcp_tunnels s) \<and>
         tcp_handle_stream (Ok ()) (Ok peer) (Err ce) s st = (Err (from_connection_error ce), s', st) \<and>
         (\<exists>stream st'. tcp_handle_stream (Ok ()) (Ok peer) (Ok i) s st = (Ok (t, stream, peer), s', st') \<and>
            counter_below st' (tunnel_byte_counter t) (stream_byte_counter stream))))"
proof (cases "tcp_tunnels s = []")
  case True
  then show ?thesis by (simp add: tcp_handle_stream_def tcp_get_tunnel_to_connect_def)
next
  case False
  obtain c s' where p: "tcp_get_tunnel_to_connect s = (c, s')" by (meson surj_pair)
  with False obtain t where c: "c = Some t" using tcp_pool.pick_None [of s] by fastforce
  then have t: "t \<in> set (tcp_tunnels s)" using tcp_pool.pick_member [of s t] p by simp
  obtain d st' where n: "byte_counter_new (Some (tunnel_byte_counter t)) st = (d, st')"
    by (meson surj_pair)
  have "counter_below st' (tunnel_byte_counter t) d"
    using counter_below_new(2) [OF assms(1) _ n] assms(2) t by blast
  with False p c t n show ?thesis
    by (simp add: tcp_handle_stream_def tunnel_create_stream_def quinn_stream_to_framed_def
        tunnel_stream_new_def)
qed

text \<open>
  The accept loop spawns a handler for every connection accepted before the first failed
  \<^verbatim>\<open>accept\<close>, in order, and nothing but such a failure ends it (with debug output on, also a
  connection whose peer address cannot be read). Stopping the ingress is no input of the
  loop and so not among the reasons to end.
\<close>

lemma tcp_accept_loop_takes:
  "fst (tcp_handle_listener debug es) = map accepted_conn (takeWhile (loop_takes debug) es) \<and>
   (snd (tcp_handle_listener debug es) = None \<longleftrightarrow> list_all (loop_takes debug) es)"
  by (simp add: tcp_handle_listener_takes)

end
