(* ===== verification/Udp_Ingress.thy ===== *)
theory Udp_Ingress
  imports Tunnel_Pool Lifecycle
begin

text \<open>
  \<^verbatim>\<open>server/ingress/udp_ingress.rs\<close>. The ingress's state is a record; \<open>udp_start\<close>, \<open>udp_stop\<close> and
  \<open>udp_assign_tunnel\<close> return it updated, with the tasks they spawn. The two forwarding tasks
  are functions of the events their \<^verbatim>\<open>select!\<close> loops see: \<open>udp_socket_to_tunnel\<close> from the UDP
  socket to the tunnels and \<open>udp_tunnel_to_socket\<close> from one tunnel back to the socket.
\<close>

type_synonym socket = nat
type_synonym token = nat

record 'u udp_ingress =
  udp_id :: ingress_id
  udp_auth_key :: auth_key
  udp_socket_addr :: socket_addr
  udp_socket :: "(socket \<times> token) option"
  udp_tunnels :: "'u tunnel list"
  udp_tunnel_rotation :: usize

datatype 'u udp_task =
    TunnelToSocket "'u tunnel" socket token
  | WatchUdpClosed "'u tunnel"
  | SocketToTunnel socket token

datatype udp_call = Quic quic_call | UdpSendTo bytes socket_addr

section \<open>Operations\<close>

definition udp_ingress_id :: "'u udp_ingress \<Rightarrow> ingress_id" where
  [simp]: "udp_ingress_id self = udp_id self"

definition udp_ingress_auth_key :: "'u udp_ingress \<Rightarrow> auth_key" where
  [simp]: "udp_ingress_auth_key self = udp_auth_key self"

definition udp_ingress_new :: "ingress_id \<Rightarrow> auth_key \<Rightarrow> socket_addr \<Rightarrow> 'u udp_ingress" where
  "udp_ingress_new i auth_key socket_addr =
     \<lparr>udp_id = i, udp_auth_key = auth_key, udp_socket_addr = socket_addr, udp_socket = None,
      udp_tunnels = [], udp_tunnel_rotation = 0\<rparr>"

definition udp_push_tunnel :: "'u tunnel \<Rightarrow> 'u udp_ingress \<Rightarrow> 'u udp_ingress" where
  "udp_push_tunnel tunnel s = s\<lparr>udp_tunnels := udp_tunnels s @ [tunnel]\<rparr>"

definition udp_forget_tunnel :: "'u \<Rightarrow> 'u udp_ingress \<Rightarrow> 'u udp_ingress" where
  "udp_forget_tunnel i s =
     (case position (\<lambda>t. tunnel_id t = i) (udp_tunnels s) of
        Some k \<Rightarrow> s\<lparr>udp_tunnels := swap_remove (udp_tunnels s) k\<rparr>
      | None \<Rightarrow> s)"

definition udp_assign_tunnel ::
    "'u tunnel \<Rightarrow> 'u udp_ingress \<Rightarrow> (unit, error) result \<times> 'u udp_ingress \<times> 'u udp_task list" where
  "udp_assign_tunnel tunnel s = (case udp_socket s of
     None \<Rightarrow> (Err IngressNotListening, s, [])
   | Some (sock, tok) \<Rightarrow>
       (Ok (), udp_push_tunnel tunnel s, [TunnelToSocket tunnel sock tok, WatchUdpClosed tunnel]))"

text \<open>
  \<^verbatim>\<open>start\<close> makes a list of socket calls, each followed by \<^verbatim>\<open>?\<close>: \<open>setup_results\<close> is their results in
  order (create, reuse port, reuse address, non-blocking, the two buffer sizes, bind,
  conversion). The address of the bound socket is unwrapped after the state is stored.
\<close>

record udp_start_env =
  setup_results :: "(unit, io_error) result list"
  new_socket :: socket
  new_token :: token
  local_addr :: "(socket_addr, io_error) result"

definition udp_start ::
    "udp_start_env \<Rightarrow> 'u udp_ingress \<Rightarrow> (unit, error) result \<times> 'u udp_ingress \<times> 'u udp_task list" where
  "udp_start env s =
     (if udp_socket s \<noteq> None then (Err IngressAlreadyListening, s, [])
      else case first_io_error (setup_results env) of
        Err e \<Rightarrow> (Err e, s, [])
      | Panic \<Rightarrow> (Panic, s, [])
      | Ok _ \<Rightarrow>
          (let s = s\<lparr>udp_socket := Some (new_socket env, new_token env)\<rparr> in
           case local_addr env of
             Ok a \<Rightarrow> (Ok (), s, [SocketToTunnel (new_socket env) (new_token env)])
           | _ \<Rightarrow> (Panic, s, [])))"

text \<open>\<^verbatim>\<open>stop\<close> also cancels the token that the two kinds of forwarding tasks wait on.\<close>

definition udp_stop :: "'u udp_ingress \<Rightarrow> (unit, error) result \<times> 'u udp_ingress \<times> token list" where
  "udp_stop s = (case udp_socket s of
     Some (sock, tok) \<Rightarrow> (Ok (), s\<lparr>udp_socket := None\<rparr>, [tok])
   | None \<Rightarrow> (Err IngressNotListening, s, []))"

definition udp_get_socket_addr ::
    "(socket \<Rightarrow> (socket_addr, io_error) result) \<Rightarrow> 'u udp_ingress \<Rightarrow> (socket_addr option, error) result" where
  "udp_get_socket_addr local_addr_of s = (case udp_socket s of
     None \<Rightarrow> Ok None
   | Some (sock, tok) \<Rightarrow> and_then (unwrap (local_addr_of sock)) (\<lambda>a. Ok (Some a)))"

definition udp_get_tunnel_to_connect :: "'u udp_ingress \<Rightarrow> 'u tunnel option \<times> 'u udp_ingress" where
  "udp_get_tunnel_to_connect s =
     (let tunnels = udp_tunnels s in
      if tunnels = [] then (None, s)
      else if length tunnels = 1 then (Some (tunnels ! 0), s)
      else (Some (tunnels ! (unat (udp_tunnel_rotation s) mod length tunnels)),
            s\<lparr>udp_tunnel_rotation := udp_tunnel_rotation s + 1\<rparr>))"

subsection \<open>From the socket to the tunnels\<close>

text \<open>
  A received datagram is the receive buffer, the length received and the sender. The result
  of sending on the tunnel is only logged.
\<close>

datatype socket_event = Received bytes nat socket_addr | ReceiveFailed | SocketCancelled

fun udp_socket_to_tunnel ::
    "bytes_crate \<Rightarrow> socket_event list \<Rightarrow> 'u udp_ingress \<Rightarrow> udp_call list \<times> 'u udp_ingress \<times> unit run" where
  "udp_socket_to_tunnel B [] s = ([], s, Running)"
| "udp_socket_to_tunnel B (Received buffer len addr # es) s =
     (case udp_get_tunnel_to_connect s of
        (None, s) \<Rightarrow> udp_socket_to_tunnel B es s
      | (Some tunnel, s) \<Rightarrow>
          (case to_datagram B addr buffer len of
             Ok bs \<Rightarrow>
               (let (calls, s, r) = udp_socket_to_tunnel B es s
                in (map Quic (tunnel_send_datagram tunnel bs) @ calls, s, r))
           | _ \<Rightarrow> ([], s, Panicked)))"
| "udp_socket_to_tunnel B (ReceiveFailed # es) s = ([], s, Returned ())"
| "udp_socket_to_tunnel B (SocketCancelled # es) s = ([], s, Returned ())"

subsection \<open>From a tunnel to the socket\<close>

datatype tunnel_event = DatagramRead "(bytes, connection_error) result" | TunnelCancelled

fun udp_tunnel_to_socket ::
    "bytes_crate \<Rightarrow> 'u tunnel \<Rightarrow> tunnel_event list \<Rightarrow> udp_call list \<times> unit run" where
  "udp_tunnel_to_socket B tunnel [] = ([], Running)"
| "udp_tunnel_to_socket B tunnel (DatagramRead received # es) =
     (case tunnel_read_datagram received of
        Ok bs \<Rightarrow>
          (case extract_origin_socket_addr_from_datagram B bs of
             Ok (Some origin_socket_addr, payload) \<Rightarrow>
               (let (calls, r) = udp_tunnel_to_socket B tunnel es
                in (UdpSendTo payload origin_socket_addr # calls, r))
           | Ok (None, _) \<Rightarrow> udp_tunnel_to_socket B tunnel es
           | _ \<Rightarrow> ([], Panicked))
      | Err e \<Rightarrow> if e = ClosedTunnel then ([], Returned ()) else udp_tunnel_to_socket B tunnel es
      | Panic \<Rightarrow> ([], Panicked))"
| "udp_tunnel_to_socket B tunnel (TunnelCancelled # es) = (map Quic (tunnel_close tunnel), Returned ())"

section \<open>The pool and the lifecycle\<close>

lemmas udp_defs [model_defs] = udp_push_tunnel_def udp_forget_tunnel_def
  udp_get_tunnel_to_connect_def

interpretation udp_pool: tunnel_pool udp_tunnels udp_tunnel_rotation udp_get_tunnel_to_connect
  udp_push_tunnel udp_forget_tunnel
  by unfold_locales (auto simp: model_defs Let_def split: option.split)

definition udp_start_call :: "udp_start_env \<Rightarrow> 'u udp_ingress \<Rightarrow> (unit, error) result \<times> 'u udp_ingress" where
  "udp_start_call env s = (case udp_start env s of (r, s', tasks) \<Rightarrow> (r, s'))"

definition udp_stop_call :: "unit \<Rightarrow> 'u udp_ingress \<Rightarrow> (unit, error) result \<times> 'u udp_ingress" where
  "udp_stop_call _ s = (case udp_stop s of (r, s', cancelled) \<Rightarrow> (r, s'))"

interpretation udp_cycle: lifecycle "\<lambda>s. udp_socket s \<noteq> None" udp_start_call udp_stop_call
  IngressAlreadyListening IngressNotListening "\<lambda>env. is_ok (local_addr env)"
  using first_io_error_not_lifecycle
  by unfold_locales
    (auto simp: udp_start_call_def udp_stop_call_def udp_start_def udp_stop_def is_ok_def Let_def
       split: result.splits option.splits)

section \<open>Forwarding\<close>

lemma udp_pick_frame: "udp_tunnels (snd (udp_get_tunnel_to_connect s)) = udp_tunnels s"
  by (rule udp_pool.pick_frame)

lemma udp_forward_all:
  assumes B: "bytes_contract B" and "udp_tunnels s \<noteq> []"
    and "\<forall>(buffer, len, addr) \<in> set ds. len \<le> length buffer"
  shows "\<exists>s'. udp_socket_to_tunnel B (map (\<lambda>(buffer, len, addr). Received buffer len addr) ds) s =
    (map2 (\<lambda>(buffer, len, addr) t. Quic (SendDatagram (tunnel_connection (the t))
        (datagram_header addr @ take len buffer)))
      ds (picks udp_get_tunnel_to_connect (length ds) s), s', Running) \<and> udp_tunnels s' = udp_tunnels s"
  using assms(2,3)
proof (induction ds arbitrary: s)
  case Nil
  then show ?case by simp
next
  case (Cons d ds)
  obtain buffer len addr where d: "d = (buffer, len, addr)" by (metis prod_cases3)
  obtain c s1 where p: "udp_get_tunnel_to_connect s = (c, s1)" by (meson surj_pair)
  with Cons.prems(1) obtain t where c: "c = Some t" using udp_pool.pick_None [of s] by fastforce
  have s1: "udp_tunnels s1 = udp_tunnels s" using udp_pick_frame [of s] p by simp
  with Cons obtain s' where
    "udp_socket_to_tunnel B (map (\<lambda>(buffer, len, addr). Received buffer len addr) ds) s1 =
      (map2 (\<lambda>(buffer, len, addr) t. Quic (SendDatagram (tunnel_connection (the t))
          (datagram_header addr @ take len buffer)))
        ds (picks udp_get_tunnel_to_connect (length ds) s1), s', Running)"
    "udp_tunnels s' = udp_tunnels s1"
    by (metis list.set_intros(2))
  with Cons.prems d p c s1 show ?case
    by (simp add: to_datagram_eq [OF B] tunnel_send_datagram_def)
qed

text \<open>The tokens that forwarding tasks wait on, and what they do when one is cancelled.\<close>

fun task_token :: "'u udp_task \<Rightarrow> token option" where
  "task_token (TunnelToSocket t sock tok) = Some tok"
| "task_token (SocketToTunnel sock tok) = Some tok"
| "task_token (WatchUdpClosed t) = None"

text \<open>Assigning a sequence of tunnels, with all the tasks spawned.\<close>

fun udp_assign_all ::
    "'u tunnel list \<Rightarrow> 'u udp_ingress \<Rightarrow> 'u udp_ingress \<times> 'u udp_task list" where
  "udp_assign_all [] s = (s, [])"
| "udp_assign_all (t # ts) s =
     (let (r, s1, tasks) = udp_assign_tunnel t s; (s2, more) = udp_assign_all ts s1
      in (s2, tasks @ more))"

lemma udp_assign_all_listening:
  assumes "udp_socket s = Some (sock, tok)"
  shows "udp_assign_all ts s = (s\<lparr>udp_tunnels := udp_tunnels s @ ts\<rparr>,
    concat (map (\<lambda>t. [TunnelToSocket t sock tok, WatchUdpClosed t]) ts))"
  using assms
  by (induction ts arbitrary: s) (auto simp: udp_assign_tunnel_def udp_push_tunnel_def)

lemma list_ex_replicate: "list_ex P (replicate n x) \<longleftrightarrow> 0 < n \<and> P x"
  by (induction n) auto

lemma udp_tunnel_errors:
  "udp_tunnel_to_socket B t (map (\<lambda>e. DatagramRead (Err e)) errs @ es) =
    (if list_ex (\<lambda>e. from_connection_error e = ClosedTunnel) errs then ([], Returned ())
     else udp_tunnel_to_socket B t es)"
  by (induction errs) (auto simp: tunnel_read_datagram_def)

section \<open>Properties\<close>

definition sample_udp :: "nat udp_ingress" where
  "sample_udp = (udp_ingress_new (IngressId [105]) (AuthKey [107]) (SocketAddrV4 [0, 0, 0, 0] 3000))
     \<lparr>udp_tunnels := [\<lparr>tunnel_id = 1, tunnel_server_id = ServerId [115], tunnel_connection = 11,
        tunnel_byte_counter = 0\<rparr>]\<rparr>"

definition sample_env :: udp_start_env where
  "sample_env = \<lparr>setup_results = [Ok (), Ok ()], new_socket = 5, new_token = 6,
     local_addr = Ok (SocketAddrV4 [0, 0, 0, 0] 3000)\<rparr>"

text \<open>
  C26. As long as a tunnel is assigned, every datagram received on the ingress's socket is
  sent on one tunnel, the one whose turn it is, in order, as the sender's address followed by
  exactly the bytes received; the loop goes on.
\<close>

theorem udp_forwards_every_datagram:
  assumes "bytes_contract B" and "udp_tunnels s \<noteq> []"
    and "\<forall>(buffer, len, addr) \<in> set ds. len \<le> length buffer"
  shows "\<exists>s'. udp_socket_to_tunnel B (map (\<lambda>(buffer, len, addr). Received buffer len addr) ds) s =
    (map2 (\<lambda>(buffer, len, addr) t. Quic (SendDatagram (tunnel_connection (the t))
        (datagram_header addr @ take len buffer)))
      ds (picks udp_get_tunnel_to_connect (length ds) s), s', Running) \<and> udp_tunnels s' = udp_tunnels s"
  using assms by (rule udp_forward_all)

theorem udp_forwards_every_datagram_witness:
  "\<exists>s'. udp_socket_to_tunnel list_bytes [Received [7, 8, 9] 2 (SocketAddrV4 [10, 0, 0, 1] 258)] sample_udp =
    ([Quic (SendDatagram 11 [0, 10, 0, 0, 1, 1, 2, 7, 8])], s', Running)"
  using udp_forwards_every_datagram [OF list_bytes_contract, of sample_udp
      "[([7, 8, 9], 2, SocketAddrV4 [10, 0, 0, 1] 258)]"]
  by (auto simp del: udp_socket_to_tunnel.simps(2)
      simp: sample_udp_def udp_get_tunnel_to_connect_def u16_to_be_def origin_defs)

text \<open>
  Every well-formed datagram that arrives on an assigned tunnel is sent from the
  ingress's socket to the address in its header, header removed, in order, whatever comes
  after.
\<close>

lemma udp_returns_every_datagram:
  assumes B: "bytes_contract B" and "\<forall>(addr, payload) \<in> set ds. socket_addr_ok addr"
  shows "udp_tunnel_to_socket B t
      (map (\<lambda>(addr, payload). DatagramRead (Ok (datagram_header addr @ payload))) ds @ es) =
    (let (calls, r) = udp_tunnel_to_socket B t es
     in (map (\<lambda>(addr, payload). UdpSendTo payload (origin_of addr)) ds @ calls, r))"
  using assms(2)
  by (induction ds) (auto simp: tunnel_read_datagram_def extract_header [OF B] case_prod_beta)

text \<open>
  C34. Which connection errors end the task that reads a tunnel: only those that the library
  classifies as a closed tunnel, at the first of which the task returns. Any other error, a
  connection timed out or reset for one, leaves the task asking the same dead connection
  again, for ever.
\<close>

theorem udp_read_loop_ends_on_closed_only:
  "udp_tunnel_to_socket B t (map (\<lambda>e. DatagramRead (Err e)) errs) =
    ([], if list_ex (\<lambda>e. from_connection_error e = ClosedTunnel) errs then Returned () else Running) \<and>
   udp_tunnel_to_socket B t (replicate n (DatagramRead (Err (ConnectionErrorOther ''timed out'')))) = ([], Running)"
  using udp_tunnel_errors [of B t errs "[]"]
    udp_tunnel_errors [of B t "replicate n (ConnectionErrorOther ''timed out'')" "[]"]
  by (simp add: list_ex_replicate from_connection_error_ClosedTunnel [of "ConnectionErrorOther _"])

text \<open>
  C33. A started UDP ingress accepts tunnels, and stopping it cancels the token of every
  forwarding task that the start and the assignments spawned; a stopped one refuses tunnels
  and a second stop.
\<close>

theorem udp_stop_reaches_every_task:
  assumes "udp_socket s = None" and "first_io_error (setup_results env) = Ok ()"
    and "is_ok (local_addr env)"
  shows "\<exists>s1 started s2 spawned s3 cancelled.
    udp_start env s = (Ok (), s1, started) \<and>
    udp_assign_all ts s1 = (s2, spawned) \<and> udp_tunnels s2 = udp_tunnels s @ ts \<and>
    udp_stop s2 = (Ok (), s3, cancelled) \<and>
    (\<forall>task \<in> set (started @ spawned). \<forall>tok. task_token task = Some tok \<longrightarrow> tok \<in> set cancelled) \<and>
    udp_assign_tunnel t s3 = (Err IngressNotListening, s3, []) \<and>
    udp_stop s3 = (Err IngressNotListening, s3, [])"
proof -
  obtain a where "local_addr env = Ok a" using assms(3) by (auto simp: is_ok_def split: result.splits)
  with assms show ?thesis
    by (simp add: udp_start_def Let_def udp_stop_def udp_assign_tunnel_def
        udp_assign_all_listening [where sock = "new_socket env" and tok = "new_token env"])
qed

theorem udp_stop_reaches_every_task_witness:
  "\<exists>s1 started s2 spawned s3 cancelled.
    udp_start sample_env sample_udp = (Ok (), s1, started) \<and>
    udp_assign_all [] s1 = (s2, spawned) \<and> udp_stop s2 = (Ok (), s3, cancelled) \<and>
    udp_stop s3 = (Err IngressNotListening, s3, [])"
proof -
  have "udp_socket sample_udp = None" "first_io_error (setup_results sample_env) = Ok ()"
    "is_ok (local_addr sample_env)"
    by (simp_all add: sample_udp_def sample_env_def udp_ingress_new_def is_ok_def)
  from udp_stop_reaches_every_task [OF this, of "[]"] show ?thesis by blast
qed

text \<open>
  Sequences of \<^verbatim>\<open>start\<close> and \<^verbatim>\<open>stop\<close> calls behave like a flag: a start is refused while
  listening, a stop is refused when not, a failed start leaves the ingress stopped, and a
  stopped ingress can be started again.
\<close>

lemma udp_start_stop_refines:
  assumes "\<And>env. Start env \<in> set calls \<Longrightarrow> is_ok (local_addr env)"
  shows "spec_calls IngressAlreadyListening IngressNotListening calls
      (fst (run_calls udp_start_call udp_stop_call calls s)) (udp_socket s \<noteq> None) =
    Some (udp_socket (snd (run_calls udp_start_call udp_stop_call calls s)) \<noteq> None)"
proof -
  have "list_all udp_cycle.env_ok calls"
    unfolding list_all_iff
  proof
    fix c assume c: "c \<in> set calls"
    show "udp_cycle.env_ok c" by (cases c) (use assms c in auto)
  qed
  then show ?thesis by (rule udp_cycle.run_calls_refines)
qed

end
