(* ===== verification/Ingress_Object.thy ===== *)
theory Ingress_Object
  imports Tcp_Ingress Udp_Ingress
begin

text \<open>
  \<^verbatim>\<open>server/ingress/ingress.rs\<close>: the trait \<^verbatim>\<open>Ingress\<close>, through which the server uses an ingress
  without knowing its kind. A trait object is one of the two kinds, and a method call is a
  case distinction.
\<close>

datatype 'u ingress = Tcp "'u tcp_ingress" | Udp "'u udp_ingress"

datatype 'u ingress_task = TcpTask "'u tcp_task" | UdpTask "'u udp_task"

text \<open>The outcomes of the system calls that a start may make, of either kind.\<close>

record ingress_start_env =
  tcp_bound :: "(listener, io_error) result"
  tcp_local_addr :: "(socket_addr, io_error) result"
  udp_env :: udp_start_env

fun ingress_obj_id :: "'u ingress \<Rightarrow> ingress_id" where
  "ingress_obj_id (Tcp s) = tcp_ingress_id s"
| "ingress_obj_id (Udp s) = udp_ingress_id s"

fun ingress_obj_auth_key :: "'u ingress \<Rightarrow> auth_key" where
  "ingress_obj_auth_key (Tcp s) = tcp_ingress_auth_key s"
| "ingress_obj_auth_key (Udp s) = udp_ingress_auth_key s"

text \<open>
  A clone of an ingress, boxed or not, shares the state behind its counted pointer: it is the
  same reference.
\<close>

type_synonym ingress_ref = nat

definition ingress_clone_box :: "ingress_ref \<Rightarrow> ingress_ref" where
  [simp]: "ingress_clone_box self = self"

definition boxed_ingress_clone :: "ingress_ref \<Rightarrow> ingress_ref" where
  [simp]: "boxed_ingress_clone self = ingress_clone_box self"

fun ingress_obj_assign_tunnel ::
    "'u tunnel \<Rightarrow> 'u ingress \<Rightarrow> (unit, error) result \<times> 'u ingress \<times> 'u ingress_task list" where
  "ingress_obj_assign_tunnel t (Tcp s) =
     (let (r, s', tasks) = tcp_assign_tunnel t s in (r, Tcp s', map TcpTask tasks))"
| "ingress_obj_assign_tunnel t (Udp s) =
     (let (r, s', tasks) = udp_assign_tunnel t s in (r, Udp s', map UdpTask tasks))"

fun ingress_obj_start ::
    "ingress_start_env \<Rightarrow> 'u ingress \<Rightarrow> (unit, error) result \<times> 'u ingress \<times> 'u ingress_task list" where
  "ingress_obj_start env (Tcp s) =
     (let (r, s', tasks) = tcp_start (tcp_bound env) (tcp_local_addr env) s in (r, Tcp s', map TcpTask tasks))"
| "ingress_obj_start env (Udp s) =
     (let (r, s', tasks) = udp_start (udp_env env) s in (r, Udp s', map UdpTask tasks))"

fun ingress_obj_stop :: "'u ingress \<Rightarrow> (unit, error) result \<times> 'u ingress \<times> token list" where
  "ingress_obj_stop (Tcp s) = (let (r, s') = tcp_stop s in (r, Tcp s', []))"
| "ingress_obj_stop (Udp s) = (let (r, s', toks) = udp_stop s in (r, Udp s', toks))"

fun ingress_obj_tunnels :: "'u ingress \<Rightarrow> 'u tunnel list" where
  "ingress_obj_tunnels (Tcp s) = tcp_tunnels s"
| "ingress_obj_tunnels (Udp s) = udp_tunnels s"

fun ingress_obj_listening :: "'u ingress \<Rightarrow> bool" where
  "ingress_obj_listening (Tcp s) = (tcp_listener s \<noteq> None)"
| "ingress_obj_listening (Udp s) = (udp_socket s \<noteq> None)"

text \<open>The identity of an ingress never changes, and what the trait's operations do to it.\<close>

lemma ingress_obj_identity [simp]:
  "ingress_obj_id (fst (snd (ingress_obj_assign_tunnel t i))) = ingress_obj_id i"
  "ingress_obj_id (fst (snd (ingress_obj_stop i))) = ingress_obj_id i"
  "ingress_obj_auth_key (fst (snd (ingress_obj_assign_tunnel t i))) = ingress_obj_auth_key i"
  by (cases i; simp add: tcp_assign_tunnel_def udp_assign_tunnel_def tcp_stop_def udp_stop_def model_defs
      split: option.split prod.split)+

lemma ingress_obj_stopped: "\<not> ingress_obj_listening (fst (snd (ingress_obj_stop i)))"
  by (cases i) (simp_all add: tcp_stop_def udp_stop_def split: option.split)

end
