(* ===== verification/Server.thy ===== *)
theory Server
  imports Ingress_Object Registry Protocol_V1
begin

text \<open>
  \<^verbatim>\<open>server/server.rs\<close> and \<^verbatim>\<open>server/protocols/v1.rs\<close>. The server's registry holds references to
  ingresses, which other parts of the program hold too, so the ingresses live in a heap that
  is part of the state. A connection is handled by \<open>server_handle_connection\<close>: the
  authentication (\<open>handle_server_protocol_v1_auth\<close>), the assignment of the tunnel and the
  command stream (\<open>handle_server_protocol_v1_command_stream\<close>). What the QUIC library returns,
  the frames that arrive and the timers that fire are arguments; frames, calls and tasks that
  a function produces are part of its result.
\<close>

section \<open>State\<close>

type_synonym endpoint = nat

record 'u server =
  srv_id :: server_id
  srv_endpoint :: "endpoint option"
  srv_quic_config :: quic_config
  srv_ingress_by_id :: "ingress_id \<rightharpoonup> ingress_ref"
  srv_byte_counter :: nat
  srv_certificate_hash :: bytes
  srv_heap :: "ingress_ref \<Rightarrow> 'u ingress"

datatype endpoint_call = EndpointClose endpoint varint string | EndpointWaitIdle endpoint

section \<open>Operations\<close>

definition server_new ::
    "server_id \<Rightarrow> quic_config \<Rightarrow> bytes \<Rightarrow> (ingress_ref \<Rightarrow> 'u ingress) \<Rightarrow> counter_store \<Rightarrow>
      'u server \<times> counter_store" where
  "server_new i server_config certificate_hash heap st =
     (let (c, st) = byte_counter_new None st in
      (\<lparr>srv_id = i, srv_endpoint = None, srv_quic_config = server_config, srv_ingress_by_id = Map.empty,
        srv_byte_counter = c, srv_certificate_hash = certificate_hash, srv_heap = heap\<rparr>, st))"

text \<open>The results of building the TLS and the QUIC configuration are arguments.\<close>

definition server_new_with_certificate ::
    "server_id \<Rightarrow> (unit, string) result \<Rightarrow> (unit, string) result \<Rightarrow> bytes \<Rightarrow> (ingress_ref \<Rightarrow> 'u ingress) \<Rightarrow>
      counter_store \<Rightarrow> ('u server \<times> counter_store, error) result" where
  "server_new_with_certificate i single_cert crypto certificate_hash heap st =
     (case single_cert of
        Err e \<Rightarrow> Err (from_rustls_error e)
      | Panic \<Rightarrow> Panic
      | Ok _ \<Rightarrow>
          (case crypto of
             Err e \<Rightarrow> Err (from_no_initial_cipher_suite e)
           | Panic \<Rightarrow> Panic
           | Ok _ \<Rightarrow>
               Ok (server_new i
                 \<lparr>alpn_protocol = VERSION, keep_alive_secs = Some 5, max_idle_secs = Some 30,
                  send_window = 256 * 1024 * 1024, receive_window = 256 * 1024 * 1024,
                  stream_receive_window = 2 * 1024 * 1024, max_concurrent_bidi_streams = 1000\<rparr>
                 certificate_hash heap st)))"

definition server_get_id :: "'u server \<Rightarrow> server_id" where
  [simp]: "server_get_id self = srv_id self"

definition server_get_certificate_hash :: "'u server \<Rightarrow> bytes" where
  [simp]: "server_get_certificate_hash self = srv_certificate_hash self"

definition server_get_byte_counter :: "'u server \<Rightarrow> nat" where
  [simp]: "server_get_byte_counter self = srv_byte_counter self"

definition server_address ::
    "(endpoint \<Rightarrow> (socket_addr, io_error) result) \<Rightarrow> 'u server \<Rightarrow> (socket_addr option, error) result" where
  "server_address local_addr_of s = (case srv_endpoint s of
     None \<Rightarrow> Ok None
   | Some e \<Rightarrow> and_then (unwrap (local_addr_of e)) (\<lambda>a. Ok (Some a)))"

definition server_assign_ingress :: "ingress_ref \<Rightarrow> 'u server \<Rightarrow> (unit, error) result \<times> 'u server" where
  "server_assign_ingress ingress s =
     (let i = ingress_obj_id (srv_heap s ingress) in
      if srv_ingress_by_id s i \<noteq> None then (Err (IngressIDAlreadyAssigned i), s)
      else (Ok (), s\<lparr>srv_ingress_by_id := (srv_ingress_by_id s)(i \<mapsto> ingress)\<rparr>))"

definition server_get_ingress_by_id :: "ingress_id \<Rightarrow> 'u server \<Rightarrow> ingress_ref option" where
  "server_get_ingress_by_id i s = map_option boxed_ingress_clone (srv_ingress_by_id s i)"

lemma clones_are_same [simp]: "map_option boxed_ingress_clone r = r"
  by (cases r) simp_all

text \<open>\<open>bound\<close> is the result of creating the endpoint; the boolean is whether the accept loop was spawned.\<close>

definition server_listen ::
    "(endpoint, io_error) result \<Rightarrow> 'u server \<Rightarrow> (unit, error) result \<times> 'u server \<times> bool" where
  "server_listen bound s =
     (if srv_endpoint s \<noteq> None then (Err ServerAlreadyListening, s, False)
      else case bound of
        Ok e \<Rightarrow> (Ok (), s\<lparr>srv_endpoint := Some e\<rparr>, True)
      | Err e \<Rightarrow> (Err (from_io_error e), s, False)
      | Panic \<Rightarrow> (Panic, s, False))"

text \<open>The accept loop hands every incoming connection to a task of its own until the endpoint is closed.\<close>

fun server_accept_loop :: "'c option list \<Rightarrow> 'c list \<times> unit run" where
  "server_accept_loop [] = ([], Running)"
| "server_accept_loop (Some c # es) = (let (cs, r) = server_accept_loop es in (c # cs, r))"
| "server_accept_loop (None # es) = ([], Returned ())"

text \<open>
  \<^verbatim>\<open>stop\<close> drains the registry in the order of the hash map, which is an argument, and stops
  each ingress; an error is only logged. The result has the tokens cancelled on the way.
\<close>

fun stop_ingresses ::
    "(ingress_id \<times> ingress_ref) list \<Rightarrow> (ingress_ref \<Rightarrow> 'u ingress) \<Rightarrow> (ingress_ref \<Rightarrow> 'u ingress) \<times> token list" where
  "stop_ingresses [] heap = (heap, [])"
| "stop_ingresses ((i, r) # drained) heap =
     (let (_, ingress, toks) = ingress_obj_stop (heap r);
          (heap', toks') = stop_ingresses drained (heap(r := ingress))
      in (heap', toks @ toks'))"

definition server_stop ::
    "(ingress_id \<times> ingress_ref) list \<Rightarrow> 'u server \<Rightarrow>
      (unit, error) result \<times> 'u server \<times> token list \<times> endpoint_call list" where
  "server_stop drained s = (case srv_endpoint s of
     Some e \<Rightarrow>
       (let (heap, toks) = stop_ingresses drained (srv_heap s) in
        (Ok (), s\<lparr>srv_endpoint := None, srv_ingress_by_id := Map.empty, srv_heap := heap\<rparr>, toks,
         [EndpointClose e 0 ''done'', EndpointWaitIdle e]))
   | None \<Rightarrow> (Err ServerNotListening, s, [], []))"

section \<open>The protocol\<close>

subsection \<open>Authentication\<close>

text \<open>
  \<open>now_v7\<close> is the fresh tunnel id and \<open>sent\<close> the result of sending the reply. The result has
  the frames sent, the calls made and, on success, the ingress and the new tunnel.
\<close>

definition handle_server_protocol_v1_auth ::
    "'u server \<Rightarrow> conn \<Rightarrow> 'u auth_event \<Rightarrow> 'u \<Rightarrow> (unit, error) result \<Rightarrow> counter_store \<Rightarrow>
      (ingress_ref \<times> 'u tunnel, error) result \<times> 'u frame_v1 list \<times> quic_call list \<times> counter_store" where
  "handle_server_protocol_v1_auth s connection ev now_v7 sent st = (case ev of
     AuthTimeout \<Rightarrow>
       (let msg = ''Auth frame not received on time.'' in
        (Err (FrameNotReceivedOnTime msg), [], [CloseConnection connection FRAME_NOT_RECEIVED_ON_TIME msg], st))
   | NextFrame None \<Rightarrow> (Err ConnectionClosed, [], [], st)
   | NextFrame (Some (Err e)) \<Rightarrow>
       (Err (Unknown (BoxError e)), [], [CloseConnection connection UNKNOWN_ERROR UNKNOWN_ERROR_SERVER_REASON], st)
   | NextFrame (Some Panic) \<Rightarrow> (Panic, [], [], st)
   | NextFrame (Some (Ok frame)) \<Rightarrow>
       (case frame of
          Auth auth_key ingress_id \<Rightarrow>
            (case server_get_ingress_by_id ingress_id s of
               None \<Rightarrow>
                 (Err RejectedIngressId, [], [CloseConnection connection REJECTED_INGRESS_ID ''rejected ingress id''], st)
             | Some ingress \<Rightarrow>
                 if ingress_obj_auth_key (srv_heap s ingress) \<noteq> auth_key then
                   (Err RejectedAuthKey, [], [CloseConnection connection REJECTED_AUTH_KEY ''rejected auth key''], st)
                 else
                   (let reply = Authenticated now_v7 (server_get_id s) in
                    case sent of
                      Err e \<Rightarrow> (Err e, [reply], [], st)
                    | Panic \<Rightarrow> (Panic, [reply], [], st)
                    | Ok _ \<Rightarrow>
                        (let (tunnel, st) = tunnel_new now_v7 (server_get_id s) connection (Some (server_get_byte_counter s)) st in
                         (Ok (ingress, tunnel), [reply], [], st))))
        | _ \<Rightarrow>
            (let msg = ''Expected first frame to be auth.'' in
             (Err (UnexpectedFrameReceived msg), [],
              [CloseConnection connection UNEXPECTED_FRAME_RECEIVED msg], st))))"

subsection \<open>The command stream\<close>

definition PING_INTERVAL_SEC :: nat where "PING_INTERVAL_SEC = 5"

fun handle_server_protocol_v1_command_stream ::
    "'u command_event list \<Rightarrow> 'u frame_v1 list \<times> (unit, error) result run" where
  "handle_server_protocol_v1_command_stream [] = ([], Running)"
| "handle_server_protocol_v1_command_stream (PingDue sent # es) =
     (case sent of
        Ok _ \<Rightarrow> (let (fs, r) = handle_server_protocol_v1_command_stream es in (Ping # fs, r))
      | Err e \<Rightarrow> ([Ping], Returned (Err e))
      | Panic \<Rightarrow> ([Ping], Panicked))"
| "handle_server_protocol_v1_command_stream (FrameRead frame_opt sent # es) =
     (case frame_opt of
        Some (Ok frame) \<Rightarrow>
          (case frame of
             Ping \<Rightarrow>
               (case sent of
                  Ok _ \<Rightarrow> (let (fs, r) = handle_server_protocol_v1_command_stream es in (Pong # fs, r))
                | Err e \<Rightarrow> ([Pong], Returned (Err e))
                | Panic \<Rightarrow> ([Pong], Panicked))
           | _ \<Rightarrow> handle_server_protocol_v1_command_stream es)
      | Some (Err e) \<Rightarrow> ([], Returned (if e = ClosedTunnel then Ok () else Err e))
      | Some Panic \<Rightarrow> ([], Panicked)
      | None \<Rightarrow> ([], Returned (Ok ())))"

subsection \<open>A connection\<close>

record 'u connection_env =
  incoming :: "(conn, connection_error) result"
  accept_bi :: "(unit, connection_error) result"
  first_event :: "'u auth_event"
  now_v7 :: 'u
  reply_sent :: "(unit, error) result"
  commands :: "'u command_event list"

record 'u connection_out =
  frames_out :: "'u frame_v1 list"
  calls_out :: "quic_call list"
  tasks_out :: "'u ingress_task list"
  outcome :: "unit run"

text \<open>
  The task of one connection from its start, with the state as its authentication finds it and
  nothing else happening before the assignment; \<^verbatim>\<open>Server_System\<close> lets other tasks run in between.
\<close>

definition server_handle_connection ::
    "'u connection_env \<Rightarrow> 'u server \<Rightarrow> counter_store \<Rightarrow> 'u connection_out \<times> 'u server \<times> counter_store" where
  "server_handle_connection env s st = (case incoming env of
     Err e \<Rightarrow> (\<lparr>frames_out = [], calls_out = [], tasks_out = [], outcome = Returned ()\<rparr>, s, st)
   | Panic \<Rightarrow> (\<lparr>frames_out = [], calls_out = [], tasks_out = [], outcome = Panicked\<rparr>, s, st)
   | Ok connection \<Rightarrow>
       (case accept_bi env of
          Err e \<Rightarrow>
            (\<lparr>frames_out = [], calls_out = [CloseConnection connection UNKNOWN_ERROR UNKNOWN_ERROR_SERVER_REASON],
              tasks_out = [], outcome = Returned ()\<rparr>, s, st)
        | Panic \<Rightarrow> (\<lparr>frames_out = [], calls_out = [], tasks_out = [], outcome = Panicked\<rparr>, s, st)
        | Ok _ \<Rightarrow>
            (case handle_server_protocol_v1_auth s connection (first_event env) (now_v7 env) (reply_sent env) st of
               (Err e, fs, calls, st) \<Rightarrow>
                 (\<lparr>frames_out = fs, calls_out = calls, tasks_out = [], outcome = Returned ()\<rparr>, s, st)
             | (Panic, fs, calls, st) \<Rightarrow>
                 (\<lparr>frames_out = fs, calls_out = calls, tasks_out = [], outcome = Panicked\<rparr>, s, st)
             | (Ok (ingress, tunnel), fs, calls, st) \<Rightarrow>
                 (let (_, ingress', tasks) = ingress_obj_assign_tunnel tunnel (srv_heap s ingress);
                      s = s\<lparr>srv_heap := (srv_heap s)(ingress := ingress')\<rparr>;
                      (fs', r) = handle_server_protocol_v1_command_stream (commands env);
                      (calls', out) = (case r of
                          Running \<Rightarrow> ([], Running)
                        | Panicked \<Rightarrow> ([], Panicked)
                        | Returned (Ok _) \<Rightarrow> ([], Returned ())
                        | Returned (Err e) \<Rightarrow>
                            (tunnel_close_with_reason tunnel UNKNOWN_ERROR UNKNOWN_ERROR_SERVER_REASON, Returned ())
                        | Returned Panic \<Rightarrow> ([], Panicked))
                  in (\<lparr>frames_out = fs @ fs', calls_out = calls @ calls', tasks_out = tasks, outcome = out\<rparr>, s, st)))))"

section \<open>The registry and the lifecycle\<close>

interpretation ingress_registry: registry srv_ingress_by_id "\<lambda>s r. ingress_obj_id (srv_heap s r)"
  server_assign_ingress IngressIDAlreadyAssigned
  by unfold_locales (auto simp: server_assign_ingress_def Let_def)

definition server_listen_call ::
    "(endpoint, io_error) result \<Rightarrow> 'u server \<Rightarrow> (unit, error) result \<times> 'u server" where
  "server_listen_call bound s = (case server_listen bound s of (r, s', spawned) \<Rightarrow> (r, s'))"

definition server_stop_call ::
    "(ingress_id \<times> ingress_ref) list \<Rightarrow> 'u server \<Rightarrow> (unit, error) result \<times> 'u server" where
  "server_stop_call drained s = (case server_stop drained s of (r, s', toks, calls) \<Rightarrow> (r, s'))"

interpretation server_cycle: lifecycle "\<lambda>s. srv_endpoint s \<noteq> None" server_listen_call server_stop_call
  ServerAlreadyListening ServerNotListening "\<lambda>_. True"
  by unfold_locales
    (auto simp: server_listen_call_def server_listen_def server_stop_call_def server_stop_def Let_def
       split: option.splits result.splits prod.splits)

lemma stop_ingresses_stopped:
  "r \<in> snd ` set drained \<Longrightarrow> \<not> ingress_obj_listening (fst (stop_ingresses drained heap) r)"
  "r \<notin> snd ` set drained \<Longrightarrow> fst (stop_ingresses drained heap) r = heap r"
proof (induction drained arbitrary: heap)
  case (Cons d drained)
  obtain i q where d: "d = (i, q)" by (cases d)
  have step: "fst (stop_ingresses (d # drained) h) =
    fst (stop_ingresses drained (h(q := fst (snd (ingress_obj_stop (h q))))))" for h :: "ingress_ref \<Rightarrow> 'a ingress"
    by (simp add: d case_prod_beta Let_def)
  {
    case (1 heap)
    show ?case
    proof (cases "r \<in> snd ` set drained")
      case False
      with 1 d have rq: "r = q" by auto
      then show ?thesis unfolding step rq [symmetric] by (simp add: Cons.IH(2) False ingress_obj_stopped)
    qed (simp add: step Cons.IH(1))
  next
    case (2 heap)
    then show ?case unfolding step by (simp add: Cons.IH(2) d)
  }
qed simp_all

section \<open>Who is let in\<close>

text \<open>The ingress that the first event of a connection is entitled to.\<close>

fun authorised :: "'u server \<Rightarrow> 'u auth_event \<Rightarrow> ingress_ref option" where
  "authorised s (NextFrame (Some (Ok (Auth k i)))) =
     (case srv_ingress_by_id s i of
        Some r \<Rightarrow> if ingress_obj_auth_key (srv_heap s r) = k then Some r else None
      | None \<Rightarrow> None)"
| "authorised s _ = None"

lemma auth_authorised:
  assumes "authorised s ev = Some r"
  shows "handle_server_protocol_v1_auth s c ev u sent st =
    (case sent of
       Ok _ \<Rightarrow> (let (t, st') = tunnel_new u (srv_id s) c (Some (srv_byte_counter s)) st in
         (Ok (r, t), [Authenticated u (srv_id s)], [], st'))
     | Err e \<Rightarrow> (Err e, [Authenticated u (srv_id s)], [], st)
     | Panic \<Rightarrow> (Panic, [Authenticated u (srv_id s)], [], st))"
  using assms
  unfolding handle_server_protocol_v1_auth_def server_get_id_def server_get_byte_counter_def
  by (cases "(s, ev)" rule: authorised.cases)
    (auto simp: server_get_ingress_by_id_def Let_def
      split: option.splits if_splits)

text \<open>The codes with which a connection that is not let in is closed.\<close>

fun rejection :: "'u server \<Rightarrow> 'u auth_event \<Rightarrow> (varint \<times> string) option" where
  "rejection s AuthTimeout = Some (FRAME_NOT_RECEIVED_ON_TIME, ''Auth frame not received on time.'')"
| "rejection s (NextFrame None) = None"
| "rejection s (NextFrame (Some Panic)) = None"
| "rejection s (NextFrame (Some (Err e))) = Some (UNKNOWN_ERROR, UNKNOWN_ERROR_SERVER_REASON)"
| "rejection s (NextFrame (Some (Ok (Auth k i)))) =
     (if srv_ingress_by_id s i = None then Some (REJECTED_INGRESS_ID, ''rejected ingress id'')
      else Some (REJECTED_AUTH_KEY, ''rejected auth key''))"
| "rejection s (NextFrame (Some (Ok f))) = Some (UNEXPECTED_FRAME_RECEIVED, ''Expected first frame to be auth.'')"

lemma auth_rejected:
  assumes "authorised s ev = None"
  shows "\<exists>e. handle_server_protocol_v1_auth s c ev u sent st =
    (e, [], (case rejection s ev of None \<Rightarrow> [] | Some (code, reason) \<Rightarrow> [CloseConnection c code reason]), st) \<and>
    \<not> is_ok e"
  using assms
  by (cases "(s, ev)" rule: rejection.cases)
    (auto simp: handle_server_protocol_v1_auth_def server_get_ingress_by_id_def is_ok_def Let_def
      split: option.splits if_splits)

lemma connection_authorised:
  assumes "incoming env = Ok c" "accept_bi env = Ok ()" "authorised s (first_event env) = Some r"
    "reply_sent env = Ok ()"
    and t: "tunnel_new (now_v7 env) (srv_id s) c (Some (srv_byte_counter s)) st = (t, st')"
    and i: "ingress_obj_assign_tunnel t (srv_heap s r) = (res, ingress', tasks)"
  shows "\<exists>out. server_handle_connection env s st =
      (out, s\<lparr>srv_heap := (srv_heap s)(r := ingress')\<rparr>, st') \<and>
    frames_out out = Authenticated (now_v7 env) (srv_id s) #
      fst (handle_server_protocol_v1_command_stream (commands env)) \<and> tasks_out out = tasks"
  using assms
  by (simp add: server_handle_connection_def auth_authorised [OF assms(3)] Let_def
      split: run.split result.split prod.split)

lemma connection_refused:
  assumes "\<not> (\<exists>c r. incoming env = Ok c \<and> accept_bi env = Ok () \<and>
    authorised s (first_event env) = Some r \<and> reply_sent env = Ok ())"
  shows "\<exists>out. server_handle_connection env s st = (out, s, st) \<and> tasks_out out = []"
proof (cases "authorised s (first_event env)")
  case None
  show ?thesis
  proof (cases "\<exists>c. incoming env = Ok c \<and> accept_bi env = Ok ()")
    case True
    then obtain c where c: "incoming env = Ok c" "accept_bi env = Ok ()" by blast
    obtain e calls where "handle_server_protocol_v1_auth s c (first_event env) (now_v7 env) (reply_sent env) st =
        (e, [], calls, st)" "\<not> is_ok e"
      using auth_rejected [OF None] by blast
    with c show ?thesis by (cases e) (simp_all add: server_handle_connection_def is_ok_def)
  qed (auto simp: server_handle_connection_def split: result.split)
next
  case (Some r)
  with assms show ?thesis
    by (auto simp: server_handle_connection_def auth_authorised [OF Some] split: result.splits)
qed

text \<open>Whether an ingress takes a tunnel: a UDP ingress only while it listens.\<close>

fun takes_tunnels :: "'u ingress \<Rightarrow> bool" where
  "takes_tunnels (Tcp s) = True"
| "takes_tunnels (Udp s) = (udp_socket s \<noteq> None)"

lemma assign_tunnels_takes:
  "ingress_obj_tunnels (fst (snd (ingress_obj_assign_tunnel t i))) =
    ingress_obj_tunnels i @ (if takes_tunnels i then [t] else [])"
  by (cases i) (simp_all add: tcp_assign_tunnel_def udp_assign_tunnel_def model_defs split: option.split)

section \<open>The command stream\<close>

fun command_reply :: "'u command_event \<Rightarrow> 'u frame_v1 list" where
  "command_reply (PingDue sent) = [Ping]"
| "command_reply (FrameRead (Some (Ok Ping)) sent) = [Pong]"
| "command_reply (FrameRead _ sent) = []"

fun command_goes_on :: "'u command_event \<Rightarrow> bool" where
  "command_goes_on (PingDue sent) = is_ok sent"
| "command_goes_on (FrameRead (Some (Ok Ping)) sent) = is_ok sent"
| "command_goes_on (FrameRead (Some (Ok f)) sent) = True"
| "command_goes_on (FrameRead _ sent) = False"

text \<open>
  The server's command loop: it sends a ping at every tick of its timer and a pong for
  every ping received, and nothing else, in the order of the events; it goes on until a send
  fails, the stream ends or reading fails, and other frames do not disturb it.
\<close>

lemma server_commands:
  "fst (handle_server_protocol_v1_command_stream es) = concat (map command_reply (up_to_end command_goes_on es)) \<and>
   (snd (handle_server_protocol_v1_command_stream es) = Running \<longleftrightarrow> list_all command_goes_on es)"
proof (induction es rule: handle_server_protocol_v1_command_stream.induct)
  case (2 sent es)
  then show ?case by (cases sent) (auto simp: case_prod_beta is_ok_def)
next
  case (3 frame_opt sent es)
  then show ?case
    by (cases "FrameRead frame_opt sent" rule: command_goes_on.cases; cases sent)
      (auto simp: case_prod_beta is_ok_def split: option.splits result.splits frame_v1.splits)
qed simp

section \<open>Properties\<close>

definition sample_server :: "nat server" where
  "sample_server = \<lparr>srv_id = ServerId [115], srv_endpoint = Some 9,
     srv_quic_config = \<lparr>alpn_protocol = VERSION, keep_alive_secs = Some 5, max_idle_secs = Some 30,
       send_window = 0, receive_window = 0, stream_receive_window = 0, max_concurrent_bidi_streams = 1000\<rparr>,
     srv_ingress_by_id = [IngressId [105] \<mapsto> 0], srv_byte_counter = 0, srv_certificate_hash = [],
     srv_heap = (\<lambda>_. Udp (udp_ingress_new (IngressId [105]) (AuthKey [107]) (SocketAddrV4 [0, 0, 0, 0] 3000)))\<rparr>"

text \<open>
  C31. Registering a sequence of ingresses: the first ingress of each id is kept, every later
  one with the id is refused with an error that names it, and a lookup returns the ingress
  kept.
\<close>

theorem server_first_ingress_wins:
  "fst (assign_all server_assign_ingress rs s) =
     spec_results IngressIDAlreadyAssigned (map (\<lambda>r. ingress_obj_id (srv_heap s r)) rs)
       (dom (srv_ingress_by_id s)) \<and>
   server_get_ingress_by_id i (snd (assign_all server_assign_ingress rs s)) =
     (map_of (map (\<lambda>r. (ingress_obj_id (srv_heap s r), r)) rs) ++ srv_ingress_by_id s) i"
  using ingress_registry.assign_all_refines [of rs s] by (simp add: server_get_ingress_by_id_def)

text \<open>
  C2. Authentication, on every branch: a tunnel is handed out exactly when the first event
  is an \<^verbatim>\<open>Auth\<close> frame with the id of a registered ingress and that ingress's key, and the reply
  could be sent; the reply \<^verbatim>\<open>Authenticated\<close> goes to no one else; and everyone else is turned
  away with the code for the reason: unknown ingress, wrong key, wrong frame, unreadable
  frame, or no frame in time.
\<close>

theorem server_auth_exact:
  "let (r, frames, calls, st') = handle_server_protocol_v1_auth s c ev u sent st in
   (is_ok r \<longleftrightarrow> authorised s ev \<noteq> None \<and> is_ok sent) \<and>
   frames = (if authorised s ev = None then [] else [Authenticated u (srv_id s)]) \<and>
   calls = (if authorised s ev \<noteq> None then []
     else case rejection s ev of None \<Rightarrow> [] | Some (code, reason) \<Rightarrow> [CloseConnection c code reason])"
proof (cases "authorised s ev")
  case None
  obtain e where "handle_server_protocol_v1_auth s c ev u sent st =
    (e, [], (case rejection s ev of None \<Rightarrow> [] | Some (code, reason) \<Rightarrow> [CloseConnection c code reason]), st)"
    "\<not> is_ok e"
    using auth_rejected [OF None] by blast
  with None show ?thesis by simp
next
  case (Some r)
  then show ?thesis
    by (simp add: auth_authorised [OF Some] is_ok_def Let_def case_prod_beta split: result.split)
qed

text \<open>
  C6. Which ingress gets the tunnel of a connection: after a connection has been handled,
  an ingress has one tunnel more exactly when the connection was established, opened its
  first stream, authenticated for this ingress and got its reply, and the ingress takes
  tunnels; no other ingress changes its tunnels. The new tunnel carries the fresh id and
  counts below the server's counter.
\<close>

theorem server_connection_assigns:
  "ingress_obj_tunnels (srv_heap (fst (snd (server_handle_connection env s st))) r) =
    ingress_obj_tunnels (srv_heap s r) @
    (case incoming env of
       Ok c \<Rightarrow>
         if accept_bi env = Ok () \<and> authorised s (first_event env) = Some r \<and> reply_sent env = Ok () \<and>
            takes_tunnels (srv_heap s r)
         then [fst (tunnel_new (now_v7 env) (srv_id s) c (Some (srv_byte_counter s)) st)] else []
     | _ \<Rightarrow> [])"
proof (cases "\<exists>c q. incoming env = Ok c \<and> accept_bi env = Ok () \<and>
    authorised s (first_event env) = Some q \<and> reply_sent env = Ok ()")
  case False
  then show ?thesis using connection_refused [OF False, of st] by (auto split: result.split)
next
  case True
  then obtain c q where h: "incoming env = Ok c" "accept_bi env = Ok ()"
    "authorised s (first_event env) = Some q" "reply_sent env = Ok ()" by blast
  obtain t st' where t: "tunnel_new (now_v7 env) (srv_id s) c (Some (srv_byte_counter s)) st = (t, st')"
    by (meson surj_pair)
  obtain res i' tasks where i: "ingress_obj_assign_tunnel t (srv_heap s q) = (res, i', tasks)"
    by (metis prod_cases3)
  have "ingress_obj_tunnels i' = ingress_obj_tunnels (srv_heap s q) @ (if takes_tunnels (srv_heap s q) then [t] else [])"
    using assign_tunnels_takes [of t "srv_heap s q"] i by simp
  with connection_authorised [OF h t i] h t show ?thesis by auto
qed

text \<open>
  A client that authenticates for a UDP ingress that is not listening is told
  \<^verbatim>\<open>Authenticated\<close>, but its tunnel is assigned to nothing: no ingress changes, no task is
  spawned and the connection is not closed for it.
\<close>

lemma server_authenticated_but_unassigned:
  assumes "incoming env = Ok c" and "accept_bi env = Ok ()"
    and "authorised s (first_event env) = Some r" and "reply_sent env = Ok ()"
    and "srv_heap s r = Udp u" and "udp_socket u = None" and "commands env = []"
  shows "\<exists>out st'. server_handle_connection env s st = (out, s, st') \<and>
    frames_out out = [Authenticated (now_v7 env) (srv_id s)] \<and> tasks_out out = [] \<and> calls_out out = []"
  using assms
  by (simp add: server_handle_connection_def auth_authorised [OF assms(3)] udp_assign_tunnel_def Let_def
      case_prod_beta fun_upd_idem)

lemma server_authenticated_but_unassigned_witness:
  "\<exists>out st'. server_handle_connection
      \<lparr>incoming = Ok 4, accept_bi = Ok (), first_event = NextFrame (Some (Ok (Auth (AuthKey [107]) (IngressId [105])))),
       now_v7 = 7, reply_sent = Ok (), commands = []\<rparr> sample_server empty_store = (out, sample_server, st') \<and>
    frames_out out = [Authenticated 7 (ServerId [115])] \<and> tasks_out out = []"
proof -
  let ?env = "\<lparr>incoming = Ok 4, accept_bi = Ok (), first_event = NextFrame (Some (Ok (Auth (AuthKey [107]) (IngressId [105])))),
       now_v7 = 7, reply_sent = Ok (), commands = []\<rparr>"
  have "authorised sample_server (first_event ?env) = Some 0"
    by (simp add: sample_server_def udp_ingress_new_def)
  moreover have "srv_id sample_server = ServerId [115]"
    "srv_heap sample_server 0 = Udp (udp_ingress_new (IngressId [105]) (AuthKey [107]) (SocketAddrV4 [0, 0, 0, 0] 3000))"
    by (simp_all add: sample_server_def)
  ultimately show ?thesis
    using server_authenticated_but_unassigned [of ?env 4 sample_server 0 _ empty_store]
    by (auto simp: udp_ingress_new_def)
qed

text \<open>
  C30. Stopping a listening server: whatever the order in which the registry is drained,
  every registered ingress is stopped, whether or not another one failed to stop, the
  registry is empty afterwards, so that every client is rejected as naming an unknown ingress
  until ingresses are registered again, and a second stop is refused.
\<close>

theorem server_stop_stops_ingresses:
  assumes "srv_endpoint s = Some e" and "map_of drained = srv_ingress_by_id s" and "distinct (map fst drained)"
  shows "\<exists>s' toks calls. server_stop drained s = (Ok (), s', toks, calls) \<and>
    (\<forall>i r. srv_ingress_by_id s i = Some r \<longrightarrow> \<not> ingress_obj_listening (srv_heap s' r)) \<and>
    authorised s' ev = None \<and> server_get_ingress_by_id i s' = None \<and>
    server_stop drained' s' = (Err ServerNotListening, s', [], [])"
proof -
  let ?h = "fst (stop_ingresses drained (srv_heap s))"
  have "\<not> ingress_obj_listening (?h r)" if "srv_ingress_by_id s i = Some r" for i r
  proof -
    have "(i, r) \<in> set drained" using that assms(2) by (simp add: map_of_SomeD)
    then have "r \<in> snd ` set drained" by force
    then show ?thesis by (rule stop_ingresses_stopped)
  qed
  moreover have "authorised (s\<lparr>srv_endpoint := None, srv_ingress_by_id := Map.empty, srv_heap := ?h\<rparr>) ev = None"
    by (cases "(s, ev)" rule: authorised.cases) simp_all
  ultimately show ?thesis
    using assms(1) by (simp add: server_stop_def case_prod_beta Let_def server_get_ingress_by_id_def)
qed

theorem server_stop_stops_ingresses_witness:
  "\<exists>s' toks calls. server_stop [(IngressId [105], 0)] sample_server = (Ok (), s', toks, calls) \<and>
    \<not> ingress_obj_listening (srv_heap s' 0)"
proof -
  have "srv_endpoint sample_server = Some 9" "map_of [(IngressId [105], 0)] = srv_ingress_by_id sample_server"
    "srv_ingress_by_id sample_server (IngressId [105]) = Some 0"
    by (simp_all add: sample_server_def)
  then show ?thesis
    using server_stop_stops_ingresses [of sample_server 9 "[(IngressId [105], 0)]" AuthTimeout] by force
qed

text \<open>
  Sequences of \<^verbatim>\<open>listen\<close> and \<^verbatim>\<open>stop\<close> calls behave like a flag, whatever creating the
  endpoint returns and in whatever order ingresses are drained.
\<close>

lemma server_listen_stop_refines:
  "spec_calls ServerAlreadyListening ServerNotListening calls
      (fst (run_calls server_listen_call server_stop_call calls s)) (srv_endpoint s \<noteq> None) =
    Some (srv_endpoint (snd (run_calls server_listen_call server_stop_call calls s)) \<noteq> None)"
proof -
  have "list_all server_cycle.env_ok calls"
    unfolding list_all_iff
  proof
    fix c assume "c \<in> set calls"
    show "server_cycle.env_ok c" by (cases c) auto
  qed
  then show ?thesis by (rule server_cycle.run_calls_refines)
qed

end
