(* ===== verification/Server_System.thy ===== *)
theory Server_System
  imports Server
begin

text \<open>
  The server as a system: everything that changes its shared state, in any order. The events
  are the calls of its operations, the two steps in which the task of a connection changes
  the state (\<^verbatim>\<open>handle_connection\<close> authenticates its peer, and later, when other tasks may have run,
  assigns the tunnel), and the steps that the tasks of the ingresses take (choosing a tunnel
  for new traffic, forgetting a tunnel that closed). The invariant says that the registry,
  the pools of tunnels and the byte counters fit together.
\<close>

section \<open>Events\<close>

fun ingress_obj_forget_tunnel :: "'u \<Rightarrow> 'u ingress \<Rightarrow> 'u ingress" where
  "ingress_obj_forget_tunnel i (Tcp s) = Tcp (tcp_forget_tunnel i s)"
| "ingress_obj_forget_tunnel i (Udp s) = Udp (udp_forget_tunnel i s)"

fun ingress_obj_pick_tunnel :: "'u ingress \<Rightarrow> 'u ingress" where
  "ingress_obj_pick_tunnel (Tcp s) = Tcp (snd (tcp_get_tunnel_to_connect s))"
| "ingress_obj_pick_tunnel (Udp s) = Udp (snd (udp_get_tunnel_to_connect s))"

datatype 'u server_event =
    AssignIngress ingress_ref
  | ListenCall "(endpoint, io_error) result"
  | StopCall "(ingress_id \<times> ingress_ref) list"
  | StartIngress ingress_ref ingress_start_env
  | StopIngress ingress_ref
  | Authenticating "'u connection_env"
  | Assigning nat
  | TunnelGone ingress_ref 'u
  | TunnelPicked ingress_ref

definition on_ingress :: "ingress_ref \<Rightarrow> ('u ingress \<Rightarrow> 'u ingress) \<Rightarrow> 'u server \<Rightarrow> 'u server" where
  "on_ingress r f s = s\<lparr>srv_heap := (srv_heap s)(r := f (srv_heap s r))\<rparr>"

text \<open>
  A connection up to its authentication: the ingress and the tunnel that its task then
  assigns. Those of all tasks that have got so far are the last part of the system's state.
  The frames and close calls on the way are not part of the state; they are results of
  \<open>handle_server_protocol_v1_auth\<close>.
\<close>

definition server_authenticate ::
    "'u connection_env \<Rightarrow> 'u server \<Rightarrow> counter_store \<Rightarrow> (ingress_ref \<times> 'u tunnel) option \<times> counter_store" where
  "server_authenticate env s st = (case (incoming env, accept_bi env) of
     (Ok connection, Ok _) \<Rightarrow>
       (case handle_server_protocol_v1_auth s connection (first_event env) (now_v7 env) (reply_sent env) st of
          (Ok authenticated, fs, calls, st) \<Rightarrow> (Some authenticated, st)
        | (_, fs, calls, st) \<Rightarrow> (None, st))
   | _ \<Rightarrow> (None, st))"

type_synonym 'u server_sys = "'u server \<times> counter_store \<times> (ingress_ref \<times> 'u tunnel) list"

definition remove_at :: "nat \<Rightarrow> 'a list \<Rightarrow> 'a list" where
  "remove_at n xs = take n xs @ drop (Suc n) xs"

fun server_event_step :: "'u server_event \<Rightarrow> 'u server_sys \<Rightarrow> 'u server_sys" where
  "server_event_step (AssignIngress r) (s, st, w) = (snd (server_assign_ingress r s), st, w)"
| "server_event_step (ListenCall bound) (s, st, w) = (fst (snd (server_listen bound s)), st, w)"
| "server_event_step (StopCall drained) (s, st, w) = (fst (snd (server_stop drained s)), st, w)"
| "server_event_step (StartIngress r env) (s, st, w) = (on_ingress r (\<lambda>i. fst (snd (ingress_obj_start env i))) s, st, w)"
| "server_event_step (StopIngress r) (s, st, w) = (on_ingress r (\<lambda>i. fst (snd (ingress_obj_stop i))) s, st, w)"
| "server_event_step (Authenticating env) (s, st, w) =
     (let (authenticated, st) = server_authenticate env s st in (s, st, w @ case_option [] (\<lambda>a. [a]) authenticated))"
| "server_event_step (Assigning n) (s, st, w) =
     (if n < length w then
        (let (r, t) = w ! n in (on_ingress r (\<lambda>i. fst (snd (ingress_obj_assign_tunnel t i))) s, st, remove_at n w))
      else (s, st, w))"
| "server_event_step (TunnelGone r u) (s, st, w) = (on_ingress r (ingress_obj_forget_tunnel u) s, st, w)"
| "server_event_step (TunnelPicked r) (s, st, w) = (on_ingress r ingress_obj_pick_tunnel s, st, w)"

abbreviation server_events :: "'u server_event list \<Rightarrow> 'u server_sys \<Rightarrow> 'u server_sys" where
  "server_events \<equiv> fold server_event_step"

text \<open>\<open>server_handle_connection\<close> is the case in which nothing happens between the two steps.\<close>

lemma server_authenticate_eq:
  "server_authenticate env s st =
    (case (incoming env, accept_bi env, authorised s (first_event env), reply_sent env) of
       (Ok c, Ok _, Some r, Ok _) \<Rightarrow>
         (let (t, st') = tunnel_new (now_v7 env) (srv_id s) c (Some (srv_byte_counter s)) st in (Some (r, t), st'))
     | _ \<Rightarrow> (None, st))"
proof (cases "authorised s (first_event env)")
  case None
  have "(case handle_server_protocol_v1_auth s c (first_event env) (now_v7 env) (reply_sent env) st of
      (Ok authenticated, fs, calls, st) \<Rightarrow> (Some authenticated, st) | (_, fs, calls, st) \<Rightarrow> (None, st)) = (None, st)" for c
  proof -
    obtain e calls where e: "handle_server_protocol_v1_auth s c (first_event env) (now_v7 env) (reply_sent env) st =
        (e, [], calls, st)" "\<not> is_ok e"
      using auth_rejected [OF None] by blast
    then show ?thesis by (cases e) (simp_all add: is_ok_def)
  qed
  then show ?thesis unfolding server_authenticate_def None by (simp split: result.split)
next
  case (Some r)
  show ?thesis unfolding server_authenticate_def auth_authorised [OF Some] Some by (auto simp: Let_def split: result.split prod.split)
qed

lemma connection_in_two_steps:
  "server_events [Authenticating env, Assigning (length w)] (s, st, w) =
    (case snd (server_handle_connection env s st) of (s', st') \<Rightarrow> (s', st', w))"
proof (cases "\<exists>c r. incoming env = Ok c \<and> accept_bi env = Ok () \<and>
    authorised s (first_event env) = Some r \<and> reply_sent env = Ok ()")
  case False
  then have "server_authenticate env s st = (None, st)"
    by (auto simp: server_authenticate_eq split: result.split option.split)
  moreover obtain out where "server_handle_connection env s st = (out, s, st)" using connection_refused [OF False] by blast
  ultimately show ?thesis by simp
next
  case True
  then obtain c r where h: "incoming env = Ok c" "accept_bi env = Ok ()"
    "authorised s (first_event env) = Some r" "reply_sent env = Ok ()" by blast
  obtain t st' where t: "tunnel_new (now_v7 env) (srv_id s) c (Some (srv_byte_counter s)) st = (t, st')" by (meson surj_pair)
  obtain res i' tasks where i: "ingress_obj_assign_tunnel t (srv_heap s r) = (res, i', tasks)" by (metis prod_cases3)
  have "server_authenticate env s st = (Some (r, t), st')" by (simp add: server_authenticate_eq h t)
  then show ?thesis using connection_authorised [OF h t i] by (auto simp: remove_at_def on_ingress_def i)
qed

section \<open>The invariant\<close>

definition tunnels_ok :: "'u server \<Rightarrow> counter_store \<Rightarrow> 'u ingress \<Rightarrow> bool" where
  "tunnels_ok s st i \<longleftrightarrow> (\<forall>t \<in> set (ingress_obj_tunnels i).
     tunnel_server_id t = srv_id s \<and> counter_below st (srv_byte_counter s) (tunnel_byte_counter t))"

definition server_ok :: "'u server_sys \<Rightarrow> bool" where
  "server_ok = (\<lambda>(s, st, w).
     store_ok st \<and> cells st (srv_byte_counter s) \<noteq> None \<and>
     (\<forall>i r. srv_ingress_by_id s i = Some r \<longrightarrow> ingress_obj_id (srv_heap s r) = i) \<and>
     (\<forall>r. tunnels_ok s st (srv_heap s r)) \<and>
     (\<forall>(r, t) \<in> set w. tunnel_server_id t = srv_id s \<and> counter_below st (srv_byte_counter s) (tunnel_byte_counter t)))"

lemma tunnels_ok_upd [simp]:
  "tunnels_ok (s\<lparr>srv_heap := h\<rparr>) st i = tunnels_ok s st i"
  "tunnels_ok (s\<lparr>srv_endpoint := e\<rparr>) st i = tunnels_ok s st i"
  "tunnels_ok (s\<lparr>srv_ingress_by_id := m\<rparr>) st i = tunnels_ok s st i"
  by (simp_all add: tunnels_ok_def)

lemma tunnels_ok_mono:
  assumes "tunnels_ok s st i" and "set (ingress_obj_tunnels j) \<subseteq> set (ingress_obj_tunnels i)"
  shows "tunnels_ok s st j"
  using assms by (auto simp: tunnels_ok_def)

text \<open>An operation that keeps an ingress's identity and adds no tunnels.\<close>

lemma on_ingress_ok:
  assumes "server_ok (s, st, w)" and "ingress_obj_id (f (srv_heap s r)) = ingress_obj_id (srv_heap s r)"
    and "set (ingress_obj_tunnels (f (srv_heap s r))) \<subseteq> set (ingress_obj_tunnels (srv_heap s r))"
  shows "server_ok (on_ingress r f s, st, w)"
  using assms tunnels_ok_mono [of s st "srv_heap s r" "f (srv_heap s r)"]
  by (auto simp: server_ok_def on_ingress_def)

lemma swap_remove_subset: "i < length xs \<Longrightarrow> set (swap_remove xs i) \<subseteq> set xs"
  using mset_swap_remove [of i xs] by (metis diff_subset_eq_self set_mset_mono set_mset_mset)

lemma ingress_start_keeps:
  "ingress_obj_id (fst (snd (ingress_obj_start env i))) = ingress_obj_id i"
  "ingress_obj_tunnels (fst (snd (ingress_obj_start env i))) = ingress_obj_tunnels i"
  by (cases i; auto simp: tcp_start_def udp_start_def Let_def split: result.split prod.split)+

lemma ingress_stop_keeps:
  "ingress_obj_tunnels (fst (snd (ingress_obj_stop i))) = ingress_obj_tunnels i"
  by (cases i) (auto simp: tcp_stop_def udp_stop_def split: option.split)

lemma ingress_forget_keeps:
  "ingress_obj_id (ingress_obj_forget_tunnel u i) = ingress_obj_id i"
  "set (ingress_obj_tunnels (ingress_obj_forget_tunnel u i)) \<subseteq> set (ingress_obj_tunnels i)"
  by (cases i; auto simp: model_defs dest!: position_Some split: option.splits
      dest: subsetD [OF swap_remove_subset])+

lemma ingress_pick_keeps:
  "ingress_obj_id (ingress_obj_pick_tunnel i) = ingress_obj_id i"
  "ingress_obj_tunnels (ingress_obj_pick_tunnel i) = ingress_obj_tunnels i"
  by (cases i; auto simp: model_defs Let_def)+

lemma stop_ingresses_keeps:
  "ingress_obj_id (fst (stop_ingresses drained heap) r) = ingress_obj_id (heap r)"
  "ingress_obj_tunnels (fst (stop_ingresses drained heap) r) = ingress_obj_tunnels (heap r)"
proof (induction drained arbitrary: heap)
  case (Cons d drained)
  obtain i q where d: "d = (i, q)" by (cases d)
  have step: "fst (stop_ingresses (d # drained) h) =
      fst (stop_ingresses drained (h(q := fst (snd (ingress_obj_stop (h q))))))" for h :: "ingress_ref \<Rightarrow> 'a ingress"
    by (simp add: d case_prod_beta Let_def)
  case 1
  show ?case unfolding step Cons.IH(1) by simp
  case 2
  show ?case unfolding step Cons.IH(2) by (simp add: ingress_stop_keeps)
qed simp_all

lemma authenticating_ok:
  assumes ok: "server_ok (s, st, w)"
  shows "server_ok (server_event_step (Authenticating env) (s, st, w))"
proof (cases "\<exists>c r. incoming env = Ok c \<and> accept_bi env = Ok () \<and>
    authorised s (first_event env) = Some r \<and> reply_sent env = Ok ()")
  case False
  then have "server_authenticate env s st = (None, st)"
    by (auto simp: server_authenticate_eq split: result.split option.split)
  then show ?thesis using ok by simp
next
  case True
  then obtain c r where h: "incoming env = Ok c" "accept_bi env = Ok ()"
    "authorised s (first_event env) = Some r" "reply_sent env = Ok ()" by blast
  let ?p = "srv_byte_counter s"
  have st: "store_ok st" "cells st ?p \<noteq> None" using ok by (simp_all add: server_ok_def)
  obtain k st' where k: "byte_counter_new (Some ?p) st = (k, st')" by (meson surj_pair)
  obtain t where t: "tunnel_new (now_v7 env) (srv_id s) c (Some ?p) st = (t, st')"
    "tunnel_server_id t = srv_id s" "tunnel_byte_counter t = k"
    using k by (simp add: tunnel_new_def)
  note below = counter_below_new [OF st k]
  have live: "cells st' ?p \<noteq> None"
    using counter_below_reaches(3) [OF below(1,2)] .
  have "server_authenticate env s st = (Some (r, t), st')" by (simp add: server_authenticate_eq h t(1))
  then show ?thesis
    using ok below live t(2,3) by (auto simp: server_ok_def tunnels_ok_def)
qed

lemma assigning_ok:
  assumes ok: "server_ok (s, st, w)"
  shows "server_ok (server_event_step (Assigning n) (s, st, w))"
proof (cases "n < length w")
  case True
  obtain r t where rt: "w ! n = (r, t)" by (meson surj_pair)
  with True have "(r, t) \<in> set w" by (metis nth_mem)
  then have t: "tunnel_server_id t = srv_id s" "counter_below st (srv_byte_counter s) (tunnel_byte_counter t)"
    using ok by (auto simp: server_ok_def)
  let ?i = "fst (snd (ingress_obj_assign_tunnel t (srv_heap s r)))"
  have i: "ingress_obj_id ?i = ingress_obj_id (srv_heap s r)"
    "set (ingress_obj_tunnels ?i) \<subseteq> insert t (set (ingress_obj_tunnels (srv_heap s r)))"
    using ingress_obj_identity(1) [of t "srv_heap s r"] assign_tunnels_takes [of t "srv_heap s r"] by auto
  have "tunnels_ok s st ?i" using i(2) t ok by (auto simp: tunnels_ok_def server_ok_def)
  moreover have "set (remove_at n w) \<subseteq> set w" by (auto simp: remove_at_def dest: in_set_takeD in_set_dropD)
  ultimately show ?thesis
    using ok i(1) True by (auto simp: server_ok_def on_ingress_def rt)
qed (use ok in simp)

lemma server_event_ok:
  assumes "server_ok (s, st, w)"
  shows "server_ok (server_event_step e (s, st, w))"
proof (cases e)
  case (AssignIngress r)
  then show ?thesis using assms by (auto simp: server_ok_def server_assign_ingress_def Let_def)
next
  case (ListenCall bound)
  then show ?thesis using assms by (auto simp: server_ok_def server_listen_def split: result.split)
next
  case (StopCall drained)
  have "tunnels_ok s st (fst (stop_ingresses drained (srv_heap s)) r)" for r
    using assms stop_ingresses_keeps(2) [of drained "srv_heap s" r] by (simp add: server_ok_def tunnels_ok_def)
  with StopCall show ?thesis
    using assms by (auto simp: server_ok_def server_stop_def case_prod_beta Let_def split: option.split)
next
  case (Authenticating env)
  then show ?thesis using authenticating_ok [OF assms] by simp
next
  case (Assigning n)
  then show ?thesis using assigning_ok [OF assms] by (simp del: server_event_step.simps)
next
  case (StartIngress r env)
  show ?thesis unfolding StartIngress server_event_step.simps
    by (rule on_ingress_ok [OF assms]) (simp_all only: ingress_start_keeps order.refl)
next
  case (StopIngress r)
  show ?thesis unfolding StopIngress server_event_step.simps
    by (rule on_ingress_ok [OF assms]) (simp_all only: ingress_obj_identity ingress_stop_keeps order.refl)
next
  case (TunnelGone r u)
  show ?thesis unfolding TunnelGone server_event_step.simps
    by (rule on_ingress_ok [OF assms]) (rule ingress_forget_keeps)+
next
  case (TunnelPicked r)
  show ?thesis unfolding TunnelPicked server_event_step.simps
    by (rule on_ingress_ok [OF assms]) (simp_all only: ingress_pick_keeps order.refl)
qed

lemma server_events_ok: "server_ok x \<Longrightarrow> server_ok (server_events es x)"
proof (induction es arbitrary: x)
  case (Cons e es)
  then show ?case using server_event_ok [of "fst x" "fst (snd x)" "snd (snd x)" e] by simp
qed simp

lemma server_new_ok:
  assumes "store_ok st" and "\<And>r. ingress_obj_tunnels (heap r) = []" and "server_new i q h heap st = (s, st')"
  shows "server_ok (s, st', [])"
proof -
  obtain c st1 where c: "byte_counter_new None st = (c, st1)" by (meson surj_pair)
  have "store_ok st1" "cells st1 c \<noteq> None" using store_ok_new(1,3) [OF assms(1) _ c] by simp_all
  then show ?thesis using assms(2,3) by (auto simp: server_new_def c server_ok_def tunnels_ok_def)
qed

section \<open>Properties\<close>

text \<open>
  C10. Whatever sequence of registrations, starts and stops, connections and steps of the
  ingresses' tasks a new server goes through, also when other tasks run between the
  authentication of a connection and the assignment of its tunnel, its parts fit together:
  an id is registered only for an ingress that has it, so that a client gets the ingress it
  named and whose key it presented; and every tunnel of every ingress, and every one that
  waits to be assigned, carries this server's id and counts its traffic on a counter below
  the server's.
\<close>

theorem server_system_wellformed:
  assumes "store_ok st" and "\<And>r. ingress_obj_tunnels (heap r) = []"
    and "server_new i q h heap st = (s0, st0)" and "server_events es (s0, st0, []) = (s, st', waiting)"
  shows "(authorised s (NextFrame (Some (Ok (Auth key ingress)))) = Some r \<longrightarrow>
      ingress_obj_id (srv_heap s r) = ingress \<and> ingress_obj_auth_key (srv_heap s r) = key) \<and>
    (t \<in> set (ingress_obj_tunnels (srv_heap s r)) \<or> (r, t) \<in> set waiting \<longrightarrow>
      tunnel_server_id t = srv_id s \<and> counter_below st' (srv_byte_counter s) (tunnel_byte_counter t)) \<and>
    store_ok st'"
proof -
  have "server_ok (s0, st0, [])" by (rule server_new_ok [OF assms(1-3)])
  from server_events_ok [OF this, of es] have "server_ok (s, st', waiting)" unfolding assms(4) .
  then have ok: "store_ok st'" "\<And>i r. srv_ingress_by_id s i = Some r \<Longrightarrow> ingress_obj_id (srv_heap s r) = i"
    "tunnels_ok s st' (srv_heap s r)"
    "(r, t) \<in> set waiting \<Longrightarrow> tunnel_server_id t = srv_id s \<and> counter_below st' (srv_byte_counter s) (tunnel_byte_counter t)"
    by (auto simp: server_ok_def)
  moreover have "srv_ingress_by_id s ingress = Some r \<and> ingress_obj_auth_key (srv_heap s r) = key"
    if "authorised s (NextFrame (Some (Ok (Auth key ingress)))) = Some r"
    using that by (simp split: option.splits if_splits)
  ultimately show ?thesis unfolding tunnels_ok_def by blast
qed

text \<open>One ingress, one client that authenticates for it; the ingress is stopped before it gets the tunnel.\<close>

definition sample_events :: "nat server_event list" where
  "sample_events = [AssignIngress 0, ListenCall (Ok 9), Authenticating
     \<lparr>incoming = Ok 4, accept_bi = Ok (), first_event = NextFrame (Some (Ok (Auth (AuthKey [107]) (IngressId [105])))),
      now_v7 = 7, reply_sent = Ok (), commands = []\<rparr>, StopCall [(IngressId [105], 0)], Assigning 0]"

definition sample_heap :: "ingress_ref \<Rightarrow> nat ingress" where
  "sample_heap = (\<lambda>_. Tcp (tcp_ingress_new (IngressId [105]) (AuthKey [107]) (SocketAddrV4 [0, 0, 0, 0] 3000)))"

theorem server_system_wellformed_witness:
  "\<exists>s0 st0 s st' w. server_new (ServerId [115]) (srv_quic_config sample_server) [] sample_heap empty_store = (s0, st0) \<and>
    server_events sample_events (s0, st0, []) = (s, st', w) \<and>
    map tunnel_id (ingress_obj_tunnels (srv_heap s 0)) = [7] \<and>
    (\<forall>t \<in> set (ingress_obj_tunnels (srv_heap s 0)). counter_below st' (srv_byte_counter s) (tunnel_byte_counter t))"
proof -
  obtain s0 st0 where n: "server_new (ServerId [115]) (srv_quic_config sample_server) [] sample_heap empty_store = (s0, st0)"
    by (meson surj_pair)
  obtain s st' w where s: "server_events sample_events (s0, st0, []) = (s, st', w)" by (metis prod_cases3)
  have heap: "ingress_obj_tunnels (sample_heap r) = []" for r by (simp add: sample_heap_def tcp_ingress_new_def)
  have "\<forall>t \<in> set (ingress_obj_tunnels (srv_heap s 0)). counter_below st' (srv_byte_counter s) (tunnel_byte_counter t)"
    using server_system_wellformed [OF store_ok_empty heap n s, where r = 0] by blast
  moreover have "map tunnel_id (ingress_obj_tunnels (srv_heap s 0)) = [7]"
    using n s by (auto simp: sample_events_def sample_heap_def server_new_def byte_counter_new_def empty_store_def
        server_assign_ingress_def server_listen_def server_authenticate_def handle_server_protocol_v1_auth_def
        server_stop_def on_ingress_def remove_at_def tcp_stop_def
        server_get_ingress_by_id_def tcp_ingress_new_def tcp_assign_tunnel_def tcp_push_tunnel_def tunnel_new_def Let_def)
  ultimately show ?thesis using n s by (intro exI [of _ s0] exI [of _ st0] exI [of _ s] exI [of _ st'] exI [of _ w] conjI)
qed

end
