(* ===== verification/Launch.thy ===== *)
theory Launch
  imports Certificates Server_System
begin

text \<open>
  \<^verbatim>\<open>server.rs\<close> of the command line program: launching a server, waiting for the signal to shut
  down (\<^verbatim>\<open>utils.rs\<close>), and stopping. Launching unwraps every error, so an error is a panic. The
  results of system calls are arguments, and so are the steps that the program's other tasks
  take while it waits.
\<close>

section \<open>Waiting for the shutdown signal\<close>

text \<open>
  What the \<^verbatim>\<open>select!\<close> sees: the result of waiting for Ctrl-C (an error ends the wait as well), the
  result of installing the handler of SIGTERM, or that signal.
\<close>

datatype shutdown_event =
    CtrlC "(unit, io_error) result"
  | SigtermInstalled "(unit, io_error) result"
  | SigtermReceived

fun wait_for_shutdown_signal :: "shutdown_event list \<Rightarrow> unit run" where
  "wait_for_shutdown_signal [] = Running"
| "wait_for_shutdown_signal (CtrlC r # es) = Returned ()"
| "wait_for_shutdown_signal (SigtermInstalled r # es) =
     (case r of Ok _ \<Rightarrow> wait_for_shutdown_signal es | _ \<Rightarrow> Panicked)"
| "wait_for_shutdown_signal (SigtermReceived # es) = Returned ()"

section \<open>Launching a server\<close>

definition launch_tcp_ingress :: "ingress_start_env \<Rightarrow> tcp_ingress_config \<Rightarrow> ('u tcp_ingress, 'e) result" where
  "launch_tcp_ingress env c =
     (case tcp_start (tcp_bound env) (tcp_local_addr env) (tcp_ingress_new (tic_id c) (tic_auth_key c) (tic_addr c)) of
        (Ok _, ingress, tasks) \<Rightarrow> Ok ingress
      | _ \<Rightarrow> Panic)"

definition launch_udp_ingress :: "ingress_start_env \<Rightarrow> udp_ingress_config \<Rightarrow> ('u udp_ingress, 'e) result" where
  "launch_udp_ingress env c =
     (case udp_start (udp_env env) (udp_ingress_new (uic_id c) (uic_auth_key c) (uic_addr c)) of
        (Ok _, ingress, tasks) \<Rightarrow> Ok ingress
      | _ \<Rightarrow> Panic)"

text \<open>
  The loop over the configured ingresses: each is created, started and registered; the \<open>k\<close>-th
  gets the reference \<open>k\<close>, and \<open>env k\<close> has the results of the system calls of its start.
\<close>

fun launch_ingresses ::
    "(nat \<Rightarrow> ingress_start_env) \<Rightarrow> nat \<Rightarrow> ingress_config list \<Rightarrow> 'u server \<Rightarrow> ('u server, 'e) result" where
  "launch_ingresses env k [] s = Ok s"
| "launch_ingresses env k (c # cs) s =
     and_then (case c of
         IngressTCP c \<Rightarrow> and_then (launch_tcp_ingress (env k) c) (\<lambda>i. Ok (Tcp i))
       | IngressUDP c \<Rightarrow> and_then (launch_udp_ingress (env k) c) (\<lambda>i. Ok (Udp i))) (\<lambda>ingress.
     case server_assign_ingress (ingress_clone_box k) (s\<lparr>srv_heap := (srv_heap s)(k := ingress)\<rparr>) of
       (Ok _, s) \<Rightarrow> launch_ingresses env (k + 1) cs s
     | _ \<Rightarrow> Panic)"

record launch_env =
  file_written :: "rust_str \<Rightarrow> (unit, io_error) result"
  single_cert :: "(unit, string) result"
  quic_crypto :: "(unit, string) result"
  endpoint_bound :: "(endpoint, io_error) result"
  ingress_calls :: "nat \<Rightarrow> ingress_start_env"

text \<open>
  The server as it stands when the program starts to wait; \<open>heap\<close> is the memory in which the
  ingresses are put.
\<close>

definition server_launched ::
    "(bytes \<Rightarrow> bytes) \<Rightarrow> pki \<Rightarrow> launch_env \<Rightarrow> server_config \<Rightarrow> ingress_config list \<Rightarrow>
      (ingress_ref \<Rightarrow> 'u ingress) \<Rightarrow> files \<Rightarrow> counter_store \<Rightarrow> ('u server \<times> counter_store, 'e) result \<times> files" where
  "server_launched sha256 P env config ingress_configs heap files st =
     (let (cert, files) = load_or_generate_self_signed_certificate sha256 P (file_written env) (sc_tls config) files in
      (and_then cert (\<lambda>(cert_der, key, certificate_hash).
       and_then (unwrap (server_new_with_certificate (sc_id config) (single_cert env) (quic_crypto env)
          certificate_hash heap st)) (\<lambda>(s, st).
       case server_listen (endpoint_bound env) s of
         (Ok _, s, _) \<Rightarrow> and_then (launch_ingresses (ingress_calls env) 0 ingress_configs s) (\<lambda>s. Ok (s, st))
       | _ \<Rightarrow> Panic)), files))"

text \<open>
  The whole function. \<open>meanwhile\<close> are the steps of the other tasks until the wait ends, and
  \<open>drained\<close> is the order in which the registry is drained. The result has the server at the end.
\<close>

definition launch_server_with_ingresses ::
    "(bytes \<Rightarrow> bytes) \<Rightarrow> pki \<Rightarrow> launch_env \<Rightarrow> server_config \<Rightarrow> ingress_config list \<Rightarrow>
      (ingress_ref \<Rightarrow> 'u ingress) \<Rightarrow> files \<Rightarrow> counter_store \<Rightarrow> 'u server_event list \<Rightarrow> shutdown_event list \<Rightarrow>
      (ingress_id \<times> ingress_ref) list \<Rightarrow> unit run \<times> 'u server option \<times> files" where
  "launch_server_with_ingresses sha256 P env config ingress_configs heap files st meanwhile signals drained =
     (case server_launched sha256 P env config ingress_configs heap files st :: (_, unit) result \<times> _ of
        (Ok (s, st), files) \<Rightarrow>
          (let (s, st, _) = server_events meanwhile (s, st, []) in
           case wait_for_shutdown_signal signals of
             Returned _ \<Rightarrow>
               (case server_stop drained s of
                  (Ok _, s, _) \<Rightarrow> (Returned (), Some s, files)
                | (_, s, _) \<Rightarrow> (Panicked, Some s, files))
           | Running \<Rightarrow> (Running, Some s, files)
           | Panicked \<Rightarrow> (Panicked, Some s, files))
      | (_, files) \<Rightarrow> (Panicked, None, files))"

section \<open>What a server launch achieves\<close>

text \<open>The loop in terms of the trait's operations.\<close>

fun new_ingress :: "ingress_config \<Rightarrow> 'u ingress" where
  "new_ingress (IngressTCP c) = Tcp (tcp_ingress_new (tic_id c) (tic_auth_key c) (tic_addr c))"
| "new_ingress (IngressUDP c) = Udp (udp_ingress_new (uic_id c) (uic_auth_key c) (uic_addr c))"

lemma launch_ingresses_Cons:
  "launch_ingresses env k (c # cs) s =
     (case ingress_obj_start (env k) (new_ingress c) of
        (Ok _, ingress, tasks) \<Rightarrow>
          (case server_assign_ingress k (s\<lparr>srv_heap := (srv_heap s)(k := ingress)\<rparr>) of
             (Ok _, s) \<Rightarrow> launch_ingresses env (k + 1) cs s
           | _ \<Rightarrow> Panic)
      | _ \<Rightarrow> Panic)"
  by (cases c) (auto simp: launch_tcp_ingress_def launch_udp_ingress_def split: prod.split result.split)

declare launch_ingresses.simps(2) [simp del]

fun config_id :: "ingress_config \<Rightarrow> ingress_id" where
  "config_id (IngressTCP c) = tic_id c"
| "config_id (IngressUDP c) = uic_id c"

fun config_key :: "ingress_config \<Rightarrow> auth_key" where
  "config_key (IngressTCP c) = tic_auth_key c"
| "config_key (IngressUDP c) = uic_auth_key c"

text \<open>System calls that succeed.\<close>

definition ingress_env_ok :: "ingress_start_env \<Rightarrow> bool" where
  "ingress_env_ok env \<longleftrightarrow> is_ok (tcp_bound env) \<and> is_ok (tcp_local_addr env) \<and>
     first_io_error (setup_results (udp_env env)) = Ok () \<and> is_ok (local_addr (udp_env env))"

lemma new_ingress_started:
  assumes "ingress_env_ok env"
  shows "\<exists>ingress tasks. ingress_obj_start env (new_ingress c) = (Ok (), ingress, tasks) \<and>
    ingress_obj_id ingress = config_id c \<and> ingress_obj_auth_key ingress = config_key c \<and>
    ingress_obj_listening ingress"
  using assms
  by (cases c)
    (auto simp: ingress_env_ok_def is_ok_def tcp_start_def udp_start_def tcp_ingress_new_def udp_ingress_new_def
      Let_def split: result.splits)

text \<open>What a launch has achieved when it does not panic.\<close>

definition launched :: "nat \<Rightarrow> ingress_config list \<Rightarrow> 'u server \<Rightarrow> 'u server \<Rightarrow> bool" where
  "launched k cs s s' \<longleftrightarrow>
     srv_endpoint s' = srv_endpoint s \<and> srv_id s' = srv_id s \<and>
     srv_ingress_by_id s' = srv_ingress_by_id s ++ map_of (zip (map config_id cs) [k..<k + length cs]) \<and>
     (\<forall>j < length cs. ingress_obj_listening (srv_heap s' (k + j)) \<and>
        ingress_obj_id (srv_heap s' (k + j)) = config_id (cs ! j) \<and>
        ingress_obj_auth_key (srv_heap s' (k + j)) = config_key (cs ! j)) \<and>
     (\<forall>j < k. srv_heap s' j = srv_heap s j)"

lemma launched_Cons:
  assumes l: "launched (Suc k) cs (s\<lparr>srv_heap := h(k := ingress), srv_ingress_by_id := (srv_ingress_by_id s)(config_id c \<mapsto> k)\<rparr>) s'"
    and "h = srv_heap s" "config_id c \<notin> config_id ` set cs"
    and "ingress_obj_listening ingress" "ingress_obj_id ingress = config_id c" "ingress_obj_auth_key ingress = config_key c"
  shows "launched k (c # cs) s s'"
proof -
  have k: "srv_heap s' k = ingress" using l by (simp add: launched_def)
  have none: "config_id c \<notin> dom (map_of (zip (map config_id cs) [Suc k..<Suc (k + length cs)]))"
    using assms(3) by (simp add: dom_map_of_zip del: upt_Suc)
  have upt: "[k..<k + length (c # cs)] = k # [Suc k..<Suc (k + length cs)]"
    by (simp add: upt_conv_Cons del: upt_Suc)
  have "srv_ingress_by_id s' =
      srv_ingress_by_id s ++ map_of (zip (map config_id (c # cs)) [k..<k + length (c # cs)])"
    using l unfolding upt launched_def by (simp add: map_add_upd_left [OF none] del: upt_Suc)
  moreover have "ingress_obj_listening (srv_heap s' (k + j)) \<and> ingress_obj_id (srv_heap s' (k + j)) = config_id ((c # cs) ! j) \<and>
      ingress_obj_auth_key (srv_heap s' (k + j)) = config_key ((c # cs) ! j)" if "j < length (c # cs)" for j
    using that l k assms(4-6) by (cases j) (auto simp: launched_def)
  ultimately show ?thesis
    using l assms(2) unfolding launched_def by simp
qed

lemma launch_ingresses_exact:
  fixes s :: "'u server"
  assumes "\<And>k. ingress_env_ok (env k)"
  shows "distinct (map config_id cs) \<and> set (map config_id cs) \<inter> dom (srv_ingress_by_id s) = {} \<Longrightarrow>
      \<exists>s'. (launch_ingresses env k cs s :: ('u server, 'e) result) = Ok s' \<and> launched k cs s s'"
    and "\<not> (distinct (map config_id cs) \<and> set (map config_id cs) \<inter> dom (srv_ingress_by_id s) = {}) \<Longrightarrow>
      (launch_ingresses env k cs s :: ('u server, 'e) result) = Panic"
proof (induction cs arbitrary: s k)
  case Nil
  {
    case 1
    show ?case by (auto simp: launched_def)
  next
    case 2
    then show ?case by simp
  }
next
  case (Cons c cs)
  have start: "\<exists>ingress tasks. ingress_obj_start (env k) (new_ingress c :: 'u ingress) = (Ok (), ingress, tasks) \<and>
      ingress_obj_id ingress = config_id c \<and> ingress_obj_auth_key ingress = config_key c \<and>
      ingress_obj_listening ingress" for k
    by (rule new_ingress_started [OF assms])
  {
    case (1 s k)
    obtain ingress :: "'u ingress" and tasks where i: "ingress_obj_start (env k) (new_ingress c) = (Ok (), ingress, tasks)"
      "ingress_obj_id ingress = config_id c" "ingress_obj_auth_key ingress = config_key c"
      "ingress_obj_listening ingress"
      using start by blast
    let ?s = "s\<lparr>srv_heap := (srv_heap s)(k := ingress), srv_ingress_by_id := (srv_ingress_by_id s)(config_id c \<mapsto> k)\<rparr>"
    have new: "srv_ingress_by_id s (config_id c) = None" using 1 by auto
    then have "(launch_ingresses env k (c # cs) s :: ('u server, 'e) result) = launch_ingresses env (Suc k) cs ?s"
      using i by (simp add: launch_ingresses_Cons server_assign_ingress_def Let_def)
    moreover have "distinct (map config_id cs) \<and> set (map config_id cs) \<inter> dom (srv_ingress_by_id ?s) = {}"
      using 1 by auto
    from Cons.IH(1) [OF this, of "Suc k"] obtain s' where
      s': "(launch_ingresses env (Suc k) cs ?s :: ('u server, 'e) result) = Ok s'" "launched (Suc k) cs ?s s'" by blast
    moreover have "launched k (c # cs) s s'"
      by (rule launched_Cons [OF s'(2) refl _ i(4,2,3)]) (use 1 in simp)
    ultimately show ?case by (metis (no_types))
  next
    case (2 s k)
    obtain ingress :: "'u ingress" and tasks where i: "ingress_obj_start (env k) (new_ingress c) = (Ok (), ingress, tasks)"
      "ingress_obj_id ingress = config_id c"
      using start by blast
    let ?s = "s\<lparr>srv_heap := (srv_heap s)(k := ingress), srv_ingress_by_id := (srv_ingress_by_id s)(config_id c \<mapsto> k)\<rparr>"
    show ?case
    proof (cases "srv_ingress_by_id s (config_id c)")
      case None
      then have "(launch_ingresses env k (c # cs) s :: ('u server, 'e) result) = launch_ingresses env (Suc k) cs ?s"
        using i by (simp add: launch_ingresses_Cons server_assign_ingress_def Let_def)
      moreover have "\<not> (distinct (map config_id cs) \<and> set (map config_id cs) \<inter> dom (srv_ingress_by_id ?s) = {})"
        using 2 None by auto
      then have "(launch_ingresses env (Suc k) cs ?s :: ('u server, 'e) result) = Panic" by (rule Cons.IH(2))
      ultimately show ?thesis by simp
    next
      case (Some r)
      then show ?thesis using i by (simp add: launch_ingresses_Cons server_assign_ingress_def Let_def)
    qed
  }
qed

text \<open>Whatever the system calls return: a launch that does not panic has registered every ingress.\<close>

lemma launch_ingresses_registers:
  fixes s :: "'u server"
  assumes "(launch_ingresses env k cs s :: ('u server, 'e) result) = Ok s'"
  shows "srv_endpoint s' = srv_endpoint s \<and> srv_ingress_by_id s \<subseteq>\<^sub>m srv_ingress_by_id s' \<and>
    (\<forall>j < length cs. k + j \<in> ran (srv_ingress_by_id s'))"
  using assms
proof (induction cs arbitrary: k s)
  case (Cons c cs)
  obtain ingress where i: "launch_ingresses env (Suc k) cs
        (s\<lparr>srv_heap := (srv_heap s)(k := ingress), srv_ingress_by_id := (srv_ingress_by_id s)(ingress_obj_id ingress \<mapsto> k)\<rparr>) = (Ok s' :: ('u server, 'e) result)"
    "srv_ingress_by_id s (ingress_obj_id ingress) = None"
    using Cons.prems
    by (auto simp: launch_ingresses_Cons server_assign_ingress_def Let_def split: prod.splits result.splits if_splits;
        blast)
  let ?m = "(srv_ingress_by_id s)(ingress_obj_id ingress \<mapsto> k)"
  note IH = Cons.IH [OF i(1), simplified]
  have le: "srv_ingress_by_id s \<subseteq>\<^sub>m ?m" using i(2) by (auto simp: map_le_def)
  have "?m \<subseteq>\<^sub>m srv_ingress_by_id s'" using IH by (simp add: fun_upd_def)
  then have "?m (ingress_obj_id ingress) = srv_ingress_by_id s' (ingress_obj_id ingress)"
    unfolding map_le_def by (rule bspec) simp
  then have "srv_ingress_by_id s' (ingress_obj_id ingress) = Some k" by simp
  then have k: "k \<in> ran (srv_ingress_by_id s')" by (rule ranI)
  have "k + j \<in> ran (srv_ingress_by_id s')" if "j < length (c # cs)" for j
    using that IH k by (cases j) auto
  moreover have "srv_ingress_by_id s \<subseteq>\<^sub>m srv_ingress_by_id s'"
    by (rule map_le_trans [OF le]) (use IH in \<open>simp add: fun_upd_def\<close>)
  ultimately show ?case using IH by blast
qed simp

lemma server_launched_registers:
  assumes "server_launched sha256 P env config cs heap files st = (Ok (s, st') :: (_, 'e) result, files')"
  shows "srv_endpoint s \<noteq> None \<and> (\<forall>j < length cs. j \<in> ran (srv_ingress_by_id s))"
proof -
  obtain s0 e where "launch_ingresses (ingress_calls env) 0 cs (s0\<lparr>srv_endpoint := Some e\<rparr>) = (Ok s :: (_, 'e) result)"
    using assms
    by (auto simp: server_launched_def server_listen_def and_then_iffs case_prod_beta Let_def
        split: result.splits if_splits prod.splits)
  from launch_ingresses_registers [OF this] show ?thesis by auto
qed

text \<open>The steps of tasks, which touch neither the endpoint nor the registry.\<close>

fun task_event :: "'u server_event \<Rightarrow> bool" where
  "task_event (Authenticating env) = True"
| "task_event (Assigning n) = True"
| "task_event (TunnelGone r u) = True"
| "task_event (TunnelPicked r) = True"
| "task_event _ = False"

lemma task_event_keeps:
  assumes "task_event e" and "server_event_step e (s, st, w) = (s', st', w')"
  shows "srv_endpoint s' = srv_endpoint s \<and> srv_ingress_by_id s' = srv_ingress_by_id s"
  using assms by (cases e) (auto simp: on_ingress_def case_prod_beta Let_def split: if_splits)

lemma task_events_keep:
  assumes "list_all task_event es" and "server_events es (s, st, w) = (s', st', w')"
  shows "srv_endpoint s' = srv_endpoint s \<and> srv_ingress_by_id s' = srv_ingress_by_id s"
  using assms
proof (induction es arbitrary: s st w)
  case (Cons e es)
  obtain s1 st1 w1 where e: "server_event_step e (s, st, w) = (s1, st1, w1)" by (metis prod_cases3)
  with Cons show ?case using task_event_keeps [OF _ e] by simp
qed simp

section \<open>Properties\<close>

definition sample_launch_env :: launch_env where
  "sample_launch_env = \<lparr>file_written = (\<lambda>_. Ok ()), single_cert = Ok (), quic_crypto = Ok (), endpoint_bound = Ok 9,
     ingress_calls = (\<lambda>_. \<lparr>tcp_bound = Ok 5, tcp_local_addr = Ok (SocketAddrV4 [0, 0, 0, 0] 3000), udp_env = sample_env\<rparr>)\<rparr>"

definition sample_server_config :: server_config where
  "sample_server_config = \<lparr>sc_id = ServerId [115], sc_client_addr = SocketAddrV4 [0, 0, 0, 0] 8765, sc_tls = sample_tls\<rparr>"

definition sample_ingresses :: "ingress_config list" where
  "sample_ingresses = [IngressTCP \<lparr>tic_addr = SocketAddrV4 [0, 0, 0, 0] 3000, tic_id = IngressId [97], tic_auth_key = AuthKey [107]\<rparr>]"

text \<open>
  C17. Launching a server when the system calls succeed: with different ids for all configured
  ingresses the program reaches the state in which it waits for the shutdown signal, listens,
  every ingress listens, and a client that presents the id and the key of a configured
  ingress is entitled to exactly that ingress; with a repeated id it panics.
\<close>

theorem server_launch_exact:
  assumes "load_or_generate_self_signed_certificate sha256 P (file_written env) (sc_tls config) files =
      (Ok (cert, key, h) :: (_, 'e) result, files')"
    and "single_cert env = Ok ()" and "quic_crypto env = Ok ()" and "endpoint_bound env = Ok e"
    and "\<And>k. ingress_env_ok (ingress_calls env k)"
  shows "if distinct (map config_id cs)
    then \<exists>s st'. server_launched sha256 P env config cs heap files st =
        (Ok (s, st') :: ('u server \<times> counter_store, 'e) result, files') \<and>
      srv_endpoint s = Some e \<and>
      (\<forall>j < length cs. ingress_obj_listening (srv_heap s j) \<and>
        authorised s (NextFrame (Some (Ok (Auth (config_key (cs ! j)) (config_id (cs ! j)))))) = Some j)
    else server_launched sha256 P env config cs heap files st =
      (Panic :: ('u server \<times> counter_store, 'e) result, files')"
proof -
  obtain s0 st' where new: "server_new_with_certificate (sc_id config) (single_cert env) (quic_crypto env) h heap st =
      (Ok (s0, st') :: ('u server \<times> counter_store, error) result)" "srv_ingress_by_id s0 = Map.empty" "srv_endpoint s0 = None"
    using assms(2,3) by (simp add: server_new_with_certificate_def server_new_def byte_counter_new_def Let_def)
  let ?s = "s0\<lparr>srv_endpoint := Some e\<rparr>"
  let ?l = "launch_ingresses (ingress_calls env) 0 cs ?s :: ('u server, 'e) result"
  have launch: "server_launched sha256 P env config cs heap files st =
      (and_then ?l (\<lambda>s. Ok (s, st')), files')"
    using assms(1,4) new by (simp add: server_launched_def server_listen_def)
  have empty: "set (map config_id cs) \<inter> dom (srv_ingress_by_id ?s) = {}" using new(2) by simp
  show ?thesis
  proof (cases "distinct (map config_id cs)")
    case True
    with launch_ingresses_exact(1) [where env = "ingress_calls env" and cs = cs and s = ?s and k = 0, OF assms(5)] empty
    obtain s where s: "?l = Ok s" "launched 0 cs ?s s" by blast
    have "srv_ingress_by_id s (config_id (cs ! j)) = Some j" if "j < length cs" for j
      using s(2) that map_of_zip_nth [of "map config_id cs" "[0..<length cs]" j] True new(2)
      by (simp add: launched_def)
    with s True show ?thesis unfolding launch by (auto simp: launched_def)
  next
    case False
    with launch_ingresses_exact(2) [where env = "ingress_calls env" and cs = cs and s = ?s and k = 0, OF assms(5)] have "?l = Panic" by blast
    with False show ?thesis by (simp add: launch)
  qed
qed

theorem server_launch_exact_witness:
  "\<exists>s st' files'. server_launched (\<lambda>bs. bs) sample_pki sample_launch_env sample_server_config sample_ingresses
      (\<lambda>_. Tcp (tcp_ingress_new (IngressId [1]) (AuthKey [1]) (SocketAddrV4 [0, 0, 0, 0] 0))) Map.empty empty_store =
      (Ok (s :: nat server, st') :: (_, unit) result, files') \<and> ingress_obj_listening (srv_heap s 0)"
proof -
  let ?files = "[[1] \<mapsto> [3], [2] \<mapsto> [7]] :: files"
  have "load_or_generate_self_signed_certificate (\<lambda>bs. bs) sample_pki (file_written sample_launch_env)
      (sc_tls sample_server_config) Map.empty = (Ok ([3], [7], [3]) :: (_, unit) result, ?files)"
    by (simp add: load_or_generate_self_signed_certificate_def generate_self_signed_certificate_def sample_pki_def
        sample_tls_def hash_certificate_def sample_launch_env_def sample_server_config_def)
  moreover have "ingress_env_ok (ingress_calls sample_launch_env k)" for k
    by (simp add: ingress_env_ok_def sample_launch_env_def sample_env_def)
  ultimately show ?thesis
    using server_launch_exact [of "\<lambda>bs. bs" sample_pki sample_launch_env sample_server_config Map.empty "[3]" "[7]" "[3]"
        ?files 9 sample_ingresses "\<lambda>_. Tcp (tcp_ingress_new (IngressId [1]) (AuthKey [1]) (SocketAddrV4 [0, 0, 0, 0] 0))"
        empty_store]
    by (auto simp: sample_launch_env_def sample_ingresses_def)
qed



end
