(* ===== verification/Launch_Client.thy ===== *)
theory Launch_Client
  imports Launch
begin

text \<open>
  \<^verbatim>\<open>client.rs\<close> of the command line program: launching a client with its egresses, waiting for the
  signal to shut down, and stopping. An error, also of name resolution, is a panic. Name
  resolution and the base64 decoder are arguments.
\<close>

section \<open>Launching\<close>

text \<open>\<open>resolve\<close> is the name resolution and \<open>decode64\<close> the base64 decoder.\<close>

definition lookup_address ::
    "(rust_str \<Rightarrow> (socket_addr list, io_error) result) \<Rightarrow> rust_str \<Rightarrow> (socket_addr, rust_str) result" where
  "lookup_address resolve address =
     ok_or (case resolve address of Ok (a # _) \<Rightarrow> Some a | _ \<Rightarrow> None) (str_lit ''Invalid address: '' @ address)"

definition prepare_server_config ::
    "(rust_str \<Rightarrow> (socket_addr list, io_error) result) \<Rightarrow> (rust_str \<Rightarrow> bytes option) \<Rightarrow> authentication_config \<Rightarrow>
      (socket_addr \<times> bytes, rust_str) result" where
  "prepare_server_config resolve decode64 a =
     (case (case resolve (ac_server a) of Ok (x # _) \<Rightarrow> Some x | _ \<Rightarrow> None) of
        None \<Rightarrow> Err (str_lit ''Invalid server address: '' @ ac_server a)
      | Some server_addr \<Rightarrow>
          and_then (or_panic (decode64 (ac_cert_hash a))) (\<lambda>certificate_hash.
          Ok (server_addr, certificate_hash)))"

text \<open>The \<open>k\<close>-th egress gets the reference \<open>k\<close>, which also names its first process.\<close>

definition launch_egress ::
    "nat \<Rightarrow> v1_certificate_hash egress_obj \<Rightarrow> v1_certificate_hash client \<Rightarrow> (v1_certificate_hash client, rust_str) result" where
  "launch_egress k eg s =
     (case egress_obj_start k eg of
        (Ok _, eg) \<Rightarrow>
          (case client_assign_egress k (s\<lparr>cl_heap := (cl_heap s)(k := eg)\<rparr>) of
             (Ok _, s) \<Rightarrow> Ok s
           | _ \<Rightarrow> Panic)
      | _ \<Rightarrow> Panic)"

definition launch_tcp_egress ::
    "(rust_str \<Rightarrow> (socket_addr list, io_error) result) \<Rightarrow> (rust_str \<Rightarrow> bytes option) \<Rightarrow> nat \<Rightarrow> tcp_egress_config \<Rightarrow>
      v1_certificate_hash client \<Rightarrow> (v1_certificate_hash client, rust_str) result" where
  "launch_tcp_egress resolve decode64 k c s =
     and_then (lookup_address resolve (tec_target c)) (\<lambda>target_address.
     and_then (prepare_server_config resolve decode64 (tec_authentication c)) (\<lambda>(server_addr, certificate_hash).
     launch_egress k (TcpE (tcp_egress_new (tec_id c)
       (v1_certificate_hash_new (client_get_byte_counter s) (tec_auth_key c) server_addr
          (ac_cert_subject_alt_name (tec_authentication c)) certificate_hash)
       (tec_ingress_id c) target_address)) s))"

definition launch_udp_egress ::
    "(rust_str \<Rightarrow> (socket_addr list, io_error) result) \<Rightarrow> (rust_str \<Rightarrow> bytes option) \<Rightarrow> nat \<Rightarrow> udp_egress_config \<Rightarrow>
      v1_certificate_hash client \<Rightarrow> (v1_certificate_hash client, rust_str) result" where
  "launch_udp_egress resolve decode64 k c s =
     and_then (lookup_address resolve (uec_target c)) (\<lambda>target_address.
     and_then (prepare_server_config resolve decode64 (uec_authentication c)) (\<lambda>(server_addr, certificate_hash).
     launch_egress k (UdpE (udp_egress_new (uec_id c)
       (v1_certificate_hash_new (client_get_byte_counter s) (uec_auth_key c) server_addr
          (ac_cert_subject_alt_name (uec_authentication c)) certificate_hash)
       (uec_ingress_id c) target_address)) s))"

fun launch_egresses ::
    "(rust_str \<Rightarrow> (socket_addr list, io_error) result) \<Rightarrow> (rust_str \<Rightarrow> bytes option) \<Rightarrow> nat \<Rightarrow> egress_config list \<Rightarrow>
      v1_certificate_hash client \<Rightarrow> (v1_certificate_hash client, 'e) result" where
  "launch_egresses resolve decode64 k [] s = Ok s"
| "launch_egresses resolve decode64 k (EgressTCP c # cs) s =
     and_then (unwrap (launch_tcp_egress resolve decode64 k c s)) (launch_egresses resolve decode64 (k + 1) cs)"
| "launch_egresses resolve decode64 k (EgressUDP c # cs) s =
     and_then (unwrap (launch_udp_egress resolve decode64 k c s)) (launch_egresses resolve decode64 (k + 1) cs)"

definition client_launched ::
    "(rust_str \<Rightarrow> (socket_addr list, io_error) result) \<Rightarrow> (rust_str \<Rightarrow> bytes option) \<Rightarrow> egress_config list \<Rightarrow>
      (egress_ref \<Rightarrow> v1_certificate_hash egress_obj) \<Rightarrow> counter_store \<Rightarrow>
      (v1_certificate_hash client \<times> counter_store, 'e) result" where
  "client_launched resolve decode64 egress_configs heap st =
     (let (s, st) = client_new heap st in
      and_then (launch_egresses resolve decode64 0 egress_configs s) (\<lambda>s. Ok (s, st)))"

text \<open>
  While the program waits, the tunnel tasks of the egresses publish states. \<open>drained\<close> is the
  order in which the registry is drained, with what joining each task returns.
\<close>

fun egress_obj_publish :: "egress_state \<Rightarrow> 'auth egress_obj \<Rightarrow> 'auth egress_obj" where
  "egress_obj_publish x (TcpE s) = TcpE (tcp_publish x s)"
| "egress_obj_publish x (UdpE s) = UdpE (udp_publish x s)"

definition published :: "(egress_ref \<times> egress_state) list \<Rightarrow> 'auth client \<Rightarrow> 'auth client" where
  "published = fold (\<lambda>(r, x) s. s\<lparr>cl_heap := (cl_heap s)(r := egress_obj_publish x (cl_heap s r))\<rparr>)"

definition launch_client_with_egresses ::
    "(rust_str \<Rightarrow> (socket_addr list, io_error) result) \<Rightarrow> (rust_str \<Rightarrow> bytes option) \<Rightarrow> egress_config list \<Rightarrow>
      (egress_ref \<Rightarrow> v1_certificate_hash egress_obj) \<Rightarrow> counter_store \<Rightarrow> (egress_ref \<times> egress_state) list \<Rightarrow>
      shutdown_event list \<Rightarrow> ((egress_id \<times> egress_ref) \<times> (unit, string) result) list \<Rightarrow>
      unit run \<times> v1_certificate_hash client option" where
  "launch_client_with_egresses resolve decode64 egress_configs heap st meanwhile signals drained =
     (case client_launched resolve decode64 egress_configs heap st :: (_, unit) result of
        Ok (s, st) \<Rightarrow>
          (let s = published meanwhile s in
           case wait_for_shutdown_signal signals of
             Returned _ \<Rightarrow>
               (case client_stop drained s of
                  (Ok _, s) \<Rightarrow> (Returned (), Some s)
                | (_, s) \<Rightarrow> (Panicked, Some s))
           | Running \<Rightarrow> (Running, Some s)
           | Panicked \<Rightarrow> (Panicked, Some s))
      | _ \<Rightarrow> (Panicked, None))"

section \<open>What a client launch achieves\<close>

fun egress_config_id :: "egress_config \<Rightarrow> egress_id" where
  "egress_config_id (EgressTCP c) = tec_id c"
| "egress_config_id (EgressUDP c) = uec_id c"

fun egress_config_authentication :: "egress_config \<Rightarrow> authentication_config" where
  "egress_config_authentication (EgressTCP c) = tec_authentication c"
| "egress_config_authentication (EgressUDP c) = uec_authentication c"

fun egress_config_key :: "egress_config \<Rightarrow> auth_key" where
  "egress_config_key (EgressTCP c) = tec_auth_key c"
| "egress_config_key (EgressUDP c) = uec_auth_key c"

fun egress_config_target :: "egress_config \<Rightarrow> rust_str" where
  "egress_config_target (EgressTCP c) = tec_target c"
| "egress_config_target (EgressUDP c) = uec_target c"

text \<open>The first address a name resolves to.\<close>

definition first_address :: "(rust_str \<Rightarrow> (socket_addr list, io_error) result) \<Rightarrow> rust_str \<Rightarrow> socket_addr option" where
  "first_address resolve name = (case resolve name of Ok (a # _) \<Rightarrow> Some a | _ \<Rightarrow> None)"

text \<open>
  The egress that a configuration asks for, started as process \<open>k\<close>, if its target and its
  server have addresses and its certificate hash is base64.
\<close>

definition configured_egress ::
    "(rust_str \<Rightarrow> (socket_addr list, io_error) result) \<Rightarrow> (rust_str \<Rightarrow> bytes option) \<Rightarrow> nat \<Rightarrow> nat \<Rightarrow> egress_config \<Rightarrow>
      v1_certificate_hash egress_obj option" where
  "configured_egress resolve decode64 counter k c =
     Option.bind (first_address resolve (egress_config_target c)) (\<lambda>target.
     Option.bind (first_address resolve (ac_server (egress_config_authentication c))) (\<lambda>server.
     Option.bind (decode64 (ac_cert_hash (egress_config_authentication c))) (\<lambda>hash.
     let auth = v1_certificate_hash_new counter (egress_config_key c) server
           (ac_cert_subject_alt_name (egress_config_authentication c)) hash in
     Some (case c of
         EgressTCP c \<Rightarrow> TcpE ((tcp_egress_new (tec_id c) auth (tec_ingress_id c) target)\<lparr>te_process := Some k, te_state := Starting\<rparr>)
       | EgressUDP c \<Rightarrow> UdpE ((udp_egress_new (uec_id c) auth (uec_ingress_id c) target)\<lparr>ue_process := Some k, ue_state := Starting\<rparr>)))))"

lemma configured_egress_id:
  "configured_egress resolve decode64 counter k c = Some e \<Longrightarrow> egress_obj_id e = egress_config_id c"
  by (cases c) (auto simp: configured_egress_def tcp_egress_new_def udp_egress_new_def Let_def bind_eq_Some_conv)

lemma launch_egresses_Cons:
  "launch_egresses resolve decode64 k (c # cs) s =
    (case configured_egress resolve decode64 (cl_byte_counter s) k c of
       None \<Rightarrow> Panic
     | Some e \<Rightarrow>
         if cl_egress_by_id s (egress_config_id c) = None
         then launch_egresses resolve decode64 (Suc k) cs
           (s\<lparr>cl_heap := (cl_heap s)(k := e), cl_egress_by_id := (cl_egress_by_id s)(egress_config_id c \<mapsto> k)\<rparr>)
         else Panic)"
proof (cases c)
  case (EgressTCP c')
  then show ?thesis
    by (cases "decode64 (ac_cert_hash (tec_authentication c'))")
      (auto simp: launch_tcp_egress_def lookup_address_def prepare_server_config_def launch_egress_def
        configured_egress_def first_address_def ok_or_def tcp_egress_start_def tcp_publish_def tcp_egress_new_def
        client_assign_egress_def Let_def split: result.split list.split option.split)
next
  case (EgressUDP c')
  then show ?thesis
    by (cases "decode64 (ac_cert_hash (uec_authentication c'))")
      (auto simp: launch_udp_egress_def lookup_address_def prepare_server_config_def launch_egress_def
        configured_egress_def first_address_def ok_or_def udp_egress_start_def udp_publish_def udp_egress_new_def
        client_assign_egress_def Let_def split: result.split list.split option.split)
qed

lemma launch_egresses_exact:
  fixes s :: "v1_certificate_hash client"
  shows "case launch_egresses resolve decode64 k cs s :: (_, 'e) result of
      Ok s' \<Rightarrow> distinct (map egress_config_id cs) \<and> set (map egress_config_id cs) \<inter> dom (cl_egress_by_id s) = {} \<and>
        cl_egress_by_id s' = cl_egress_by_id s ++ map_of (zip (map egress_config_id cs) [k..<k + length cs]) \<and>
        (\<forall>j < length cs. configured_egress resolve decode64 (cl_byte_counter s) (k + j) (cs ! j) = Some (cl_heap s' (k + j))) \<and>
        (\<forall>j < k. cl_heap s' j = cl_heap s j)
    | Err e \<Rightarrow> False
    | Panic \<Rightarrow> \<not> (distinct (map egress_config_id cs) \<and> set (map egress_config_id cs) \<inter> dom (cl_egress_by_id s) = {} \<and>
        list_all (\<lambda>c. configured_egress resolve decode64 (cl_byte_counter s) 0 c \<noteq> None) cs)"
proof (induction cs arbitrary: k s)
  case (Cons c cs)
  have any: "configured_egress resolve decode64 n i c = None \<longleftrightarrow> configured_egress resolve decode64 n 0 c = None" for n i
    by (auto simp: configured_egress_def Let_def bind_eq_None_conv split: egress_config.split)
  show ?case
  proof (cases "configured_egress resolve decode64 (cl_byte_counter s) k c")
    case None
    then show ?thesis using any [of "cl_byte_counter s" k] by (simp add: launch_egresses_Cons)
  next
    case (Some e)
    let ?s = "s\<lparr>cl_heap := (cl_heap s)(k := e), cl_egress_by_id := (cl_egress_by_id s)(egress_config_id c \<mapsto> k)\<rparr>"
    have upt: "[k..<k + length (c # cs)] = k # [Suc k..<Suc (k + length cs)]" by (simp add: upt_conv_Cons del: upt_Suc)
    show ?thesis
    proof (cases "cl_egress_by_id s (egress_config_id c)")
      case None
      have rec: "launch_egresses resolve decode64 k (c # cs) s = (launch_egresses resolve decode64 (Suc k) cs ?s :: (_, 'e) result)"
        using Some None by (simp add: launch_egresses_Cons)
      show ?thesis
      proof (cases "launch_egresses resolve decode64 (Suc k) cs ?s :: (_, 'e) result")
        case (Ok s')
        note IH = Cons.IH [where k = "Suc k" and s = ?s, unfolded Ok result.case]
        have fresh: "egress_config_id c \<notin> set (map egress_config_id cs)" using IH by auto
        then have "egress_config_id c \<notin> dom (map_of (zip (map egress_config_id cs) [Suc k..<Suc (k + length cs)]))"
          by (simp add: dom_map_of_zip del: upt_Suc)
        from map_add_upd_left [OF this] have "cl_egress_by_id s' =
            cl_egress_by_id s ++ map_of (zip (map egress_config_id (c # cs)) [k..<k + length (c # cs)])"
          using IH unfolding upt by (simp del: upt_Suc)
        moreover have "cl_heap s' k = e" using IH by simp
        then have "configured_egress resolve decode64 (cl_byte_counter s) (k + j) ((c # cs) ! j) = Some (cl_heap s' (k + j))"
          if "j < length (c # cs)" for j
          using that IH Some by (cases j) auto
        moreover have "set (map egress_config_id (c # cs)) \<inter> dom (cl_egress_by_id s) = {}" using IH None by auto
        moreover have "\<forall>j < k. cl_heap s' j = cl_heap s j" using IH by auto
        ultimately show ?thesis using IH fresh unfolding rec Ok by simp
      next
        case (Err x)
        then show ?thesis using Cons.IH [where k = "Suc k" and s = ?s] by simp
      next
        case Panic
        then show ?thesis using Cons.IH [where k = "Suc k" and s = ?s] None unfolding rec by auto
      qed
    next
      case taken: (Some r)
      then show ?thesis using Some by (auto simp: launch_egresses_Cons)
    qed
  qed
qed simp

section \<open>Properties\<close>

text \<open>
  C18. Launching a client, for every configuration and every outcome of name resolution: when
  every target and every server has an address, every certificate hash is base64 and no id is
  repeated, each egress is registered under its id, started, and connects to the first address
  of its server with its own key, name and certificate hash and to the first address of its
  target; in every other case the program panics.
\<close>

theorem client_launch_exact:
  "case client_launched resolve decode64 cs heap st :: (v1_certificate_hash client \<times> counter_store, 'e) result of
     Ok (s, st') \<Rightarrow> distinct (map egress_config_id cs) \<and>
       (\<forall>j < length cs. cl_egress_by_id s (egress_config_id (cs ! j)) = Some j \<and>
          configured_egress resolve decode64 (fst (byte_counter_new None st)) j (cs ! j) = Some (cl_heap s j))
   | Err e \<Rightarrow> False
   | Panic \<Rightarrow> \<not> (distinct (map egress_config_id cs) \<and>
       list_all (\<lambda>c. configured_egress resolve decode64 (fst (byte_counter_new None st)) 0 c \<noteq> None) cs)"
proof -
  obtain s st' where new: "client_new heap st = (s, st')" "cl_egress_by_id s = Map.empty"
    "cl_byte_counter s = fst (byte_counter_new None st)"
    by (cases "byte_counter_new None st") (simp add: client_new_def)
  have nth: "map_of (zip (map egress_config_id cs) [0..<length cs]) (egress_config_id (cs ! j)) = Some j"
    if "distinct (map egress_config_id cs)" "j < length cs" for j
    using that map_of_zip_nth [of "map egress_config_id cs" "[0..<length cs]" j] by simp
  show ?thesis
    using launch_egresses_exact [where k = 0 and cs = cs and s = s and 'e = 'e, of resolve decode64] new(2,3) nth
    by (cases "launch_egresses resolve decode64 0 cs s :: (_, 'e) result")
      (simp_all add: client_launched_def new(1))
qed

text \<open>Two egresses of which the second repeats the id of the first.\<close>

definition sample_egress_config :: tcp_egress_config where
  "sample_egress_config = \<lparr>tec_authentication = \<lparr>ac_server = [115], ac_cert_hash = [9], ac_cert_subject_alt_name = [104]\<rparr>,
     tec_id = EgressId [101], tec_ingress_id = IngressId [105], tec_auth_key = AuthKey [107], tec_target = [116]\<rparr>"

theorem client_launch_exact_witness:
  "(client_launched (\<lambda>_. Ok [SocketAddrV4 [127, 0, 0, 1] 80]) Some [EgressTCP sample_egress_config, EgressTCP sample_egress_config]
     (\<lambda>_. TcpE (tcp_egress_new (EgressId [0]) sample_v1 (IngressId [0]) (SocketAddrV4 [0, 0, 0, 0] 0))) empty_store
     :: (v1_certificate_hash client \<times> counter_store, unit) result) = Panic"
  using client_launch_exact [where 'e = unit and resolve = "\<lambda>_. Ok [SocketAddrV4 [127, 0, 0, 1] 80]" and
    ?decode64.0 = Some and cs = "[EgressTCP sample_egress_config, EgressTCP sample_egress_config]" and st = empty_store and
    heap = "\<lambda>_. TcpE (tcp_egress_new (EgressId [0]) sample_v1 (IngressId [0]) (SocketAddrV4 [0, 0, 0, 0] 0))"]
  by (auto split: result.splits prod.splits)

end
