(* ===== verification/Main_Program.thy ===== *)
theory Main_Program
  imports Launch_Client
begin

text \<open>
  \<^verbatim>\<open>main.rs\<close>: the program from its parsed command line to its end. \<open>main_plan\<close> decides what to
  launch, \<open>main\<close> launches it. Reading a file and the two TOML parsers are arguments; the
  environment has everything that the launch of a server or of a client takes.
\<close>

section \<open>What to launch\<close>

datatype plan = LaunchServer server_config "ingress_config list" | LaunchClient "egress_config list" | NoLaunch

record sources =
  base64_encode :: "bytes \<Rightarrow> rust_str"
  random_source :: rng
  read_to_string :: "rust_str \<Rightarrow> (rust_str, io_error) result"
  parse_server_toml :: "rust_str \<Rightarrow> (server_toml, string) result"
  parse_client_toml :: "rust_str \<Rightarrow> (client_toml, string) result"

text \<open>A configuration file wins over the subcommand; without either nothing is launched.\<close>

fun main_plan :: "sources \<Rightarrow> commands \<Rightarrow> (plan, unit) gen" where
  "main_plan src (ServerCommand cmd) = (case scmd_config cmd of
     Some config_path \<Rightarrow>
       bind_gen (lift_gen (unwrap (read_to_string src config_path))) (\<lambda>contents.
       bind_gen (lift_gen (unwrap (parse_server_toml src contents))) (\<lambda>toml.
       bind_gen (server_toml_into (base64_encode src) (random_source src) toml) (\<lambda>(config, ingresses).
       return_gen (LaunchServer config ingresses))))
   | None \<Rightarrow>
       (case scmd_ingress cmd of
          Some (TcpCommand args) \<Rightarrow>
            bind_gen (server_args_into (base64_encode src) (random_source src) (scmd_server_args cmd)) (\<lambda>config.
            bind_gen (tcp_ingress_args_into (base64_encode src) (random_source src) args) (\<lambda>ingress.
            return_gen (LaunchServer config [ingress])))
        | Some (UdpCommand args) \<Rightarrow>
            bind_gen (server_args_into (base64_encode src) (random_source src) (scmd_server_args cmd)) (\<lambda>config.
            bind_gen (udp_ingress_args_into (base64_encode src) (random_source src) args) (\<lambda>ingress.
            return_gen (LaunchServer config [ingress])))
        | None \<Rightarrow> return_gen NoLaunch))"
| "main_plan src (ClientCommand cmd) = (case ccmd_config cmd of
     Some config_path \<Rightarrow>
       bind_gen (lift_gen (unwrap (read_to_string src config_path))) (\<lambda>contents.
       bind_gen (lift_gen (unwrap (parse_client_toml src contents))) (\<lambda>toml n.
         case client_toml_try_from (base64_encode src) (random_source src) toml n of
           (r, n) \<Rightarrow> (and_then (unwrap r) (\<lambda>egresses. Ok (LaunchClient egresses)), n)))
   | None \<Rightarrow>
       (case ccmd_egress cmd of
          Some (TcpEgressCommand args) \<Rightarrow>
            bind_gen (tcp_egress_args_into (base64_encode src) (random_source src) args) (\<lambda>egress.
            return_gen (LaunchClient [egress]))
        | Some (UdpEgressCommand args) \<Rightarrow>
            bind_gen (udp_egress_args_into (base64_encode src) (random_source src) args) (\<lambda>egress.
            return_gen (LaunchClient [egress]))
        | None \<Rightarrow> return_gen NoLaunch))"

section \<open>The program\<close>

datatype log_level = DEBUG | INFO

definition max_level :: "cli \<Rightarrow> log_level" where
  "max_level cli = (if cli_verbose cli then DEBUG else INFO)"

text \<open>
  The results of the calls outside the program, the memory and files it starts with, the
  steps of other tasks and the signals.
\<close>

record 'u main_env =
  install_default :: "(unit, unit) result"
  input_sources :: sources
  sha256_of :: "bytes \<Rightarrow> bytes"
  pki_of :: pki
  server_calls :: launch_env
  lookup_host :: "rust_str \<Rightarrow> (socket_addr list, io_error) result"
  base64_decode :: "rust_str \<Rightarrow> bytes option"
  ingress_memory :: "ingress_ref \<Rightarrow> 'u ingress"
  egress_memory :: "egress_ref \<Rightarrow> v1_certificate_hash egress_obj"
  files_before :: files
  counters_before :: counter_store
  server_meanwhile :: "'u server_event list"
  client_meanwhile :: "(egress_ref \<times> egress_state) list"
  signals :: "shutdown_event list"
  drained_ingresses :: "(ingress_id \<times> ingress_ref) list"
  drained_egresses :: "((egress_id \<times> egress_ref) \<times> (unit, string) result) list"

definition launch_plan :: "'u main_env \<Rightarrow> plan \<Rightarrow> unit run" where
  "launch_plan env p = (case p of
     LaunchServer config ingresses \<Rightarrow>
       fst (launch_server_with_ingresses (sha256_of env) (pki_of env) (server_calls env) config ingresses
         (ingress_memory env) (files_before env) (counters_before env) (server_meanwhile env) (signals env)
         (drained_ingresses env))
   | LaunchClient egresses \<Rightarrow>
       fst (launch_client_with_egresses (lookup_host env) (base64_decode env) egresses (egress_memory env)
         (counters_before env) (client_meanwhile env) (signals env) (drained_egresses env))
   | NoLaunch \<Rightarrow> Returned ())"

definition main :: "'u main_env \<Rightarrow> cli \<Rightarrow> log_level option \<times> unit run" where
  "main env cli = (case install_default env of
     Ok _ \<Rightarrow>
       (Some (max_level cli),
        case main_plan (input_sources env) (cli_command cli) 0 of
          (Ok p, n) \<Rightarrow> launch_plan env p
        | _ \<Rightarrow> Panicked)
   | _ \<Rightarrow> (None, Panicked))"

section \<open>Files and command lines\<close>

text \<open>
  The arguments that say the same as a file: the flags of a TLS section, and the commands for
  a file with one entry.
\<close>

definition tls_args_of_toml :: "tls_toml option \<Rightarrow> tls_args" where
  "tls_args_of_toml t = tls_args_parsed (map_option tt_cert_pem_path t) (map_option tt_key_pem_path t)
     (Option.bind t tt_cert_subject_alt_name)"

definition server_args_of_toml :: "server_toml \<Rightarrow> server_args" where
  "server_args_of_toml t = server_args_parsed (st_id t) (st_ip t) (st_port t) (tls_args_of_toml (st_tls t))"

definition tcp_command_of_toml :: "tcp_ingress_toml \<Rightarrow> ingress_command" where
  "tcp_command_of_toml t = TcpCommand (tcp_ingress_args_parsed (tit_ip t) (Some (tit_port t)) (tit_id t) (Some (tit_auth_key t)))"

definition udp_command_of_toml :: "udp_ingress_toml \<Rightarrow> ingress_command" where
  "udp_command_of_toml t = UdpCommand (udp_ingress_args_parsed (uit_ip t) (Some (uit_port t)) (uit_id t) (Some (uit_auth_key t)))"

definition authentication_args_of_toml :: "authentication_toml \<Rightarrow> authentication_args" where
  "authentication_args_of_toml t = authentication_args_parsed (at_address t) (at_cert_hash t) (at_cert_subject_alt_name t)"

definition tcp_egress_command_of_toml :: "authentication_toml \<Rightarrow> tcp_egress_toml \<Rightarrow> egress_command" where
  "tcp_egress_command_of_toml server t = TcpEgressCommand
     \<lparr>tea_authentication_args = authentication_args_of_toml server,
      tea_egress_args = \<lparr>ea_id = tet_id t, ea_ingress_id = tet_ingress_id t, ea_auth_key = tet_auth_key t\<rparr>,
      tea_target = tet_target t\<rparr>"

definition udp_egress_command_of_toml :: "authentication_toml \<Rightarrow> udp_egress_toml \<Rightarrow> egress_command" where
  "udp_egress_command_of_toml server t = UdpEgressCommand
     \<lparr>uea_authentication_args = authentication_args_of_toml server,
      uea_egress_args = \<lparr>ea_id = uet_id t, ea_ingress_id = uet_ingress_id t, ea_auth_key = uet_auth_key t\<rparr>,
      uea_target = uet_target t\<rparr>"

text \<open>The commands for a server file with one ingress and for a client file with one egress.\<close>

fun server_file_command :: "server_toml \<Rightarrow> ingress_command option" where
  "server_file_command t = (case (st_tcp_ingress t, st_udp_ingress t) of
     ([i], []) \<Rightarrow> Some (tcp_command_of_toml i) | ([], [i]) \<Rightarrow> Some (udp_command_of_toml i) | _ \<Rightarrow> None)"

fun client_file_command :: "client_toml \<Rightarrow> egress_command option" where
  "client_file_command t = (case (ct_tcp_egress t, ct_udp_egress t) of
     ([e], []) \<Rightarrow> map_option (\<lambda>server. tcp_egress_command_of_toml server e) (or_else (tet_server e) (ct_server t))
   | ([], [e]) \<Rightarrow> map_option (\<lambda>server. udp_egress_command_of_toml server e) (or_else (uet_server e) (ct_server t))
   | _ \<Rightarrow> None)"

lemma bind_return_gen [simp]: "bind_gen (return_gen x) f = f x"
  by (simp add: bind_gen_def return_gen_def fun_eq_iff)

lemma bind_bind_gen: "bind_gen (bind_gen m f) g = bind_gen m (\<lambda>x. bind_gen (f x) g)"
  by (auto simp: bind_gen_def fun_eq_iff split: prod.split result.split)

lemma bind_lift_gen [simp]: "bind_gen (lift_gen (Ok x)) f = f x"
  by (simp add: bind_gen_def lift_gen_def fun_eq_iff)

lemma or_generated_given [simp]: "or_generated base64 random len try_from (Some i) = return_gen i"
  by (simp add: or_generated_def)

lemma tls_args_of_toml_config:
  "\<lparr>cert_pem_path = ta_cert_pem_path (tls_args_of_toml t), key_pem_path = ta_key_pem_path (tls_args_of_toml t),
    cert_subject_alt_name = ta_cert_subject_alt_name (tls_args_of_toml t)\<rparr> = tls_of_toml t"
  by (simp add: tls_args_of_toml_def tls_args_parsed_def tls_of_toml_def given_or_def split: option.split)

lemma server_args_of_toml_into:
  "server_args_into base64 random (server_args_of_toml t) =
    bind_gen (or_generated base64 random 16 server_id_try_from (st_id t)) (\<lambda>i. return_gen
      \<lparr>sc_id = i, sc_client_addr = socket_addr_new (case st_ip t of Some ip \<Rightarrow> ip | None \<Rightarrow> DEFAULT_SERVER_IP)
         (case st_port t of Some port \<Rightarrow> port | None \<Rightarrow> DEFAULT_SERVER_PORT), sc_tls = tls_of_toml (st_tls t)\<rparr>)"
  unfolding DEFAULT_SERVER_IP_def DEFAULT_SERVER_PORT_def
  by (simp add: server_args_into_def server_args_of_toml_def server_args_parsed_def given_or_def tls_args_of_toml_config)

lemma ingress_toml_is_args:
  "tcp_ingress_args_into base64 random
     (tcp_ingress_args_parsed (tit_ip t) (Some (tit_port t)) (tit_id t) (Some (tit_auth_key t))) =
   tcp_ingress_toml_into base64 random t"
  "udp_ingress_args_into base64 random
     (udp_ingress_args_parsed (uit_ip u) (Some (uit_port u)) (uit_id u) (Some (uit_auth_key u))) =
   udp_ingress_toml_into base64 random u"
  unfolding tcp_ingress_toml_into_def udp_ingress_toml_into_def DEFAULT_INGRESS_IP_def
  by (simp_all add: tcp_ingress_args_into_def tcp_ingress_args_parsed_def udp_ingress_args_into_def
      udp_ingress_args_parsed_def given_or_def Let_def)

lemma authentication_args_of_toml_into:
  "authentication_args_into (authentication_args_of_toml t) = authentication_toml_into t"
  by (simp add: authentication_args_into_def authentication_args_of_toml_def authentication_args_parsed_def
      authentication_toml_into_def given_or_def)

lemma server_file_plan:
  assumes "server_file_command t = Some c"
  shows "bind_gen (server_toml_into (base64_encode src) (random_source src) t) (\<lambda>(config, ingresses).
      return_gen (LaunchServer config ingresses)) =
    main_plan src (ServerCommand \<lparr>scmd_config = None, scmd_server_args = server_args_of_toml t, scmd_ingress = Some c\<rparr>)"
  using assms
  by (auto simp: server_toml_into_def server_args_of_toml_into bind_bind_gen Let_def
      tcp_command_of_toml_def udp_command_of_toml_def ingress_toml_is_args split: list.splits)

text \<open>Conversions of a client file cannot be refused once they have reached a server.\<close>

lemma unwrapped_conversion:
  "(\<lambda>n. case bind_gen (or_generated base64 random len try_from i) (\<lambda>x. return_gen (f x)) n of
      (r, n) \<Rightarrow> (and_then (unwrap (r :: ('b, rust_str) result)) (\<lambda>y. Ok (g y)), n)) =
    bind_gen (or_generated base64 random len try_from i) (\<lambda>x. return_gen (g (f x)) :: ('c, unit) gen)"
  by (auto simp: or_generated_def bind_gen_def return_gen_def lift_gen_def generate_secure_random_key_def
      fun_eq_iff and_then_def unwrap_def split: option.split prod.split result.split)

lemma client_file_plan:
  assumes "client_file_command t = Some c"
  shows "(\<lambda>n. case client_toml_try_from (base64_encode src) (random_source src) t n of
      (r, n) \<Rightarrow> (and_then (unwrap r) (\<lambda>egresses. Ok (LaunchClient egresses)), n)) =
    main_plan src (ClientCommand \<lparr>ccmd_config = None, ccmd_egress = Some c\<rparr>)"
  using assms
  by (auto simp: client_toml_try_from_def tcp_egress_of_toml_def udp_egress_of_toml_def bind_bind_gen ok_or_def
      unwrapped_conversion tcp_egress_command_of_toml_def udp_egress_command_of_toml_def tcp_egress_args_into_def
      udp_egress_args_into_def authentication_args_of_toml_into split: list.splits option.splits)

lemma same_plan:
  "main_plan (input_sources env) c = main_plan (input_sources env) d \<Longrightarrow>
    main env \<lparr>cli_command = c, cli_verbose = v\<rparr> = main env \<lparr>cli_command = d, cli_verbose = v\<rparr>"
  by (cases "install_default env") (simp_all add: main_def max_level_def)

section \<open>Properties\<close>

text \<open>
  C14. A server file with a single ingress means the same as the server command line that
  names the same values, and a client file with a single egress the same as the client
  command line that does: whichever values are left out of both, the program generates the
  same ids from the same random bytes, fills in the same defaults and runs identically, to
  the same end. A subcommand or server arguments given beside a file change nothing.
\<close>

theorem command_line_equals_file:
  "(read_to_string (input_sources env) path = Ok contents \<and>
      parse_server_toml (input_sources env) contents = Ok ts \<and> server_file_command ts = Some ing \<longrightarrow>
    main env \<lparr>cli_command = ServerCommand \<lparr>scmd_config = Some path, scmd_server_args = args, scmd_ingress = any\<rparr>,
      cli_verbose = v\<rparr> =
    main env \<lparr>cli_command = ServerCommand \<lparr>scmd_config = None, scmd_server_args = server_args_of_toml ts,
      scmd_ingress = Some ing\<rparr>, cli_verbose = v\<rparr>) \<and>
   (read_to_string (input_sources env) path = Ok contents \<and>
      parse_client_toml (input_sources env) contents = Ok tc \<and> client_file_command tc = Some eg \<longrightarrow>
    main env \<lparr>cli_command = ClientCommand \<lparr>ccmd_config = Some path, ccmd_egress = any'\<rparr>, cli_verbose = v\<rparr> =
    main env \<lparr>cli_command = ClientCommand \<lparr>ccmd_config = None, ccmd_egress = Some eg\<rparr>, cli_verbose = v\<rparr>)"
proof (intro conjI impI; elim conjE; rule same_plan)
  let ?src = "input_sources env"
  assume "read_to_string ?src path = Ok contents" "parse_server_toml ?src contents = Ok ts"
    "server_file_command ts = Some ing"
  then show "main_plan ?src (ServerCommand \<lparr>scmd_config = Some path, scmd_server_args = args, scmd_ingress = any\<rparr>) =
      main_plan ?src (ServerCommand \<lparr>scmd_config = None, scmd_server_args = server_args_of_toml ts, scmd_ingress = Some ing\<rparr>)"
    using server_file_plan [of ts ing ?src] by simp
next
  let ?src = "input_sources env"
  assume "read_to_string ?src path = Ok contents" "parse_client_toml ?src contents = Ok tc"
    "client_file_command tc = Some eg"
  then show "main_plan ?src (ClientCommand \<lparr>ccmd_config = Some path, ccmd_egress = any'\<rparr>) =
      main_plan ?src (ClientCommand \<lparr>ccmd_config = None, ccmd_egress = Some eg\<rparr>)"
    using client_file_plan [of tc eg ?src] by simp
qed

text \<open>Two files: \<open>s\<close> is a server file and \<open>c\<close> a client file, and neither parses as the other.\<close>

definition sample_client_file :: client_toml where
  "sample_client_file = sample_client_toml\<lparr>ct_server :=
     Some \<lparr>at_address = [1], at_cert_hash = [2], at_cert_subject_alt_name = None\<rparr>\<rparr>"

definition sample_sources :: sources where
  "sample_sources = \<lparr>base64_encode = sample_base64, random_source = sample_rng, read_to_string = (\<lambda>p. Ok p),
     parse_server_toml = (\<lambda>s. if s = str_lit ''s'' then Ok sample_server_toml else Err ''no server file''),
     parse_client_toml = (\<lambda>s. if s = str_lit ''c'' then Ok sample_client_file else Err ''no client file'')\<rparr>"

definition sample_main_env :: "nat main_env" where
  "sample_main_env = \<lparr>install_default = Ok (), input_sources = sample_sources, sha256_of = (\<lambda>bs. bs), pki_of = sample_pki,
     server_calls = sample_launch_env, lookup_host = (\<lambda>n. Ok [SocketAddrV4 [127, 0, 0, 1] 80]), base64_decode = Some,
     ingress_memory = sample_heap,
     egress_memory = (\<lambda>_. TcpE (tcp_egress_new (EgressId [101]) sample_v1 (IngressId [105]) (SocketAddrV4 [127, 0, 0, 1] 80))),
     files_before = Map.empty, counters_before = empty_store, server_meanwhile = [], client_meanwhile = [],
     signals = [CtrlC (Ok ())], drained_ingresses = [], drained_egresses = []\<rparr>"

theorem command_line_equals_file_witness:
  "\<exists>ing eg.
    main sample_main_env \<lparr>cli_command = ServerCommand \<lparr>scmd_config = Some (str_lit ''s''),
      scmd_server_args = server_args_parsed None None None (tls_args_parsed None None None), scmd_ingress = None\<rparr>,
      cli_verbose = True\<rparr> =
    main sample_main_env \<lparr>cli_command = ServerCommand \<lparr>scmd_config = None,
      scmd_server_args = server_args_of_toml sample_server_toml, scmd_ingress = Some ing\<rparr>, cli_verbose = True\<rparr> \<and>
    main sample_main_env \<lparr>cli_command = ClientCommand \<lparr>ccmd_config = Some (str_lit ''c''), ccmd_egress = None\<rparr>,
      cli_verbose = True\<rparr> =
    main sample_main_env \<lparr>cli_command = ClientCommand \<lparr>ccmd_config = None, ccmd_egress = Some eg\<rparr>, cli_verbose = True\<rparr>"
proof -
  let ?src = "input_sources sample_main_env"
  have files: "read_to_string ?src (str_lit ''s'') = Ok (str_lit ''s'')" "read_to_string ?src (str_lit ''c'') = Ok (str_lit ''c'')"
    "parse_server_toml ?src (str_lit ''s'') = Ok sample_server_toml" "parse_client_toml ?src (str_lit ''c'') = Ok sample_client_file"
    by (simp_all add: sample_main_env_def sample_sources_def)
  obtain ing where i: "server_file_command sample_server_toml = Some ing" by (simp add: sample_server_toml_def)
  obtain eg where e: "client_file_command sample_client_file = Some eg"
    by (simp add: sample_client_file_def sample_client_toml_def or_else_def)
  show ?thesis
    using command_line_equals_file [of sample_main_env "str_lit ''s''" "str_lit ''s''" sample_server_toml ing]
      command_line_equals_file [of sample_main_env "str_lit ''c''" "str_lit ''c''"] files i e
    by blast
qed

text \<open>
  C37. A server started with a file, on every path. If the file cannot be read or parsed, the
  program panics. Otherwise it launches a server with the ingresses of the file in order, TCP
  before UDP, with their addresses, keys and ids, with the address and the id of the file,
  with the certificate and key paths of its TLS section (which has to name both), and with
  the documented defaults for what is left out: without a TLS section the default paths,
  without an id one that is generated and always valid. It panics instead only if an id is
  left out and the random source fails.
\<close>

theorem server_file_exact:
  assumes "base64_contract (base64_encode src)" and "rng_lengths (random_source src)"
  shows "let r = fst (main_plan src (ServerCommand \<lparr>scmd_config = Some path, scmd_server_args = args, scmd_ingress = any\<rparr>) n) in
    case read_to_string src path of
      Ok contents \<Rightarrow>
        (case parse_server_toml src contents of
           Ok t \<Rightarrow>
             (case r of
                Ok p \<Rightarrow> \<exists>c ingresses. p = LaunchServer c ingresses \<and> server_rel t c ingresses
              | Err e \<Rightarrow> False
              | Panic \<Rightarrow> lacks_id t \<and> rng_fails (random_source src))
         | _ \<Rightarrow> r = Panic)
    | _ \<Rightarrow> r = Panic"
proof (cases "read_to_string src path")
  case (Ok contents)
  show ?thesis
  proof (cases "parse_server_toml src contents")
    case toml: (Ok t)
    have "ends (bind_gen (server_toml_into (base64_encode src) (random_source src) t) (\<lambda>(config, ingresses).
        return_gen (LaunchServer config ingresses)) :: (_, unit) gen) (lacks_id t \<and> rng_fails (random_source src))
        (\<lambda>p. \<exists>c ingresses. p = LaunchServer c ingresses \<and> server_rel t c ingresses)"
      by (rule ends_bind [OF server_toml_ends [OF assms]]) (auto intro: ends_return)
    then show ?thesis using Ok toml by (simp add: ends_def)
  qed (simp_all add: Ok bind_gen_def lift_gen_def unwrap_def)
qed (simp_all add: bind_gen_def lift_gen_def unwrap_def)

theorem server_file_exact_witness:
  "\<exists>c i. fst (main_plan sample_sources (ServerCommand \<lparr>scmd_config = Some (str_lit ''s''),
      scmd_server_args = server_args_parsed None None None (tls_args_parsed None None None), scmd_ingress = None\<rparr>) 0) =
      Ok (LaunchServer c [i]) \<and>
    sc_client_addr c = SocketAddrV4 [0, 0, 0, 0] 8765 \<and> cert_pem_path (sc_tls c) = str_lit ''siffleux-cert.pem'' \<and>
    id_text_ok (server_id_to_str (sc_id c))"
proof -
  let ?cmd = "ServerCommand \<lparr>scmd_config = Some (str_lit ''s''),
      scmd_server_args = server_args_parsed None None None (tls_args_parsed None None None), scmd_ingress = None\<rparr>"
  have src: "base64_contract (base64_encode sample_sources)" "rng_lengths (random_source sample_sources)"
    "\<not> rng_fails (random_source sample_sources)"
    using sample_contracts rng_contract_lengths by (simp_all add: sample_sources_def)
  have toml: "read_to_string sample_sources (str_lit ''s'') = Ok (str_lit ''s'')"
    "parse_server_toml sample_sources (str_lit ''s'') = Ok sample_server_toml"
    by (simp_all add: sample_sources_def)
  have "case fst (main_plan sample_sources ?cmd 0) of
      Ok p \<Rightarrow> \<exists>c ingresses. p = LaunchServer c ingresses \<and> server_rel sample_server_toml c ingresses
    | Err e \<Rightarrow> False
    | Panic \<Rightarrow> lacks_id sample_server_toml \<and> rng_fails (random_source sample_sources)"
    using server_file_exact [OF src(1,2), of "str_lit ''s''" "server_args_parsed None None None (tls_args_parsed None None None)" None 0]
    unfolding Let_def toml result.case .
  then obtain c ins where p: "fst (main_plan sample_sources ?cmd 0) = Ok (LaunchServer c ins)"
    "server_rel sample_server_toml c ins"
    using src(3) by (auto split: result.splits simp del: main_plan.simps)
  then show ?thesis
    by (auto simp: server_rel_def sample_server_toml_def list_all2_Cons1 simp del: main_plan.simps)
qed

end
