(* ===== verification/Stream_Pump.thy ===== *)
theory Stream_Pump
  imports Tunnel
begin

text \<open>
  \<^verbatim>\<open>common/protocols/v1.rs\<close>: \<^verbatim>\<open>handle_protocol_v1_tcp_stream\<close> copies bytes between a TCP
  connection and a stream of a tunnel with two tasks, one per direction, that share a
  cancellation token. A task copies what arrives in chunks of its buffer; at the end of its
  source it ends its sink, and on an error it ends its sink and cancels the token, on which
  the other task gives up too.
\<close>

section \<open>One direction\<close>

datatype write_end = WriteOpen | WriteFinished | WriteReset varint | WriteShutdown

text \<open>
  A direction: what has arrived and is not yet copied, whether the source has ended, what
  has been written to the sink, how the sink was ended, and whether the task is done. The
  field \<open>arrived\<close> is the history of the source.
\<close>

record half =
  pending :: bytes
  at_eof :: bool
  written :: bytes
  write_end :: write_end
  task_done :: bool
  arrived :: bytes

definition half_init :: half where
  "half_init = \<lparr>pending = [], at_eof = False, written = [], write_end = WriteOpen, task_done = False, arrived = []\<rparr>"

definition BUFFER_CAPACITY :: nat where "BUFFER_CAPACITY = 65536"

text \<open>
  The events: bytes arrive, the source ends, \<^verbatim>\<open>copy_buf\<close> moves a chunk, it returns (with the
  result of ending the sink), it fails, or the task sees that the token is cancelled.
\<close>

datatype copy_event = Arrive bytes | Eof | Copy nat | CopyOk bool | CopyErr | SeeCancelled

fun copy_io :: "copy_event \<Rightarrow> half \<Rightarrow> half option" where
  "copy_io (Arrive bs) h =
     (if at_eof h then None else Some (h\<lparr>pending := pending h @ bs, arrived := arrived h @ bs\<rparr>))"
| "copy_io Eof h = Some (h\<lparr>at_eof := True\<rparr>)"
| "copy_io (Copy n) h =
     (if task_done h \<or> n = 0 \<or> length (pending h) < n \<or> BUFFER_CAPACITY < n then None
      else Some (h\<lparr>pending := drop n (pending h), written := written h @ take n (pending h)\<rparr>))"
| "copy_io _ h = None"

text \<open>
  The two tasks; the boolean is the token before and after. The task to the tunnel finishes
  or resets the stream, the task to TCP shuts the connection down in every case.
\<close>

fun tcp_to_tunnel_step :: "copy_event \<Rightarrow> bool \<times> half \<Rightarrow> (bool \<times> half) option" where
  "tcp_to_tunnel_step (CopyOk finished) (token, h) =
     (if task_done h \<or> pending h \<noteq> [] \<or> \<not> at_eof h then None
      else Some (token, h\<lparr>task_done := True, write_end := (if finished then WriteFinished else WriteOpen)\<rparr>))"
| "tcp_to_tunnel_step CopyErr (token, h) =
     (if task_done h then None else Some (True, h\<lparr>task_done := True, write_end := WriteReset UNKNOWN_ERROR\<rparr>))"
| "tcp_to_tunnel_step SeeCancelled (token, h) =
     (if task_done h \<or> \<not> token then None
      else Some (token, h\<lparr>task_done := True, write_end := WriteReset UNKNOWN_ERROR\<rparr>))"
| "tcp_to_tunnel_step ev (token, h) = map_option (\<lambda>h'. (token, h')) (copy_io ev h)"

fun tunnel_to_tcp_step :: "copy_event \<Rightarrow> bool \<times> half \<Rightarrow> (bool \<times> half) option" where
  "tunnel_to_tcp_step (CopyOk shut_down) (token, h) =
     (if task_done h \<or> pending h \<noteq> [] \<or> \<not> at_eof h then None
      else Some (token, h\<lparr>task_done := True, write_end := (if shut_down then WriteShutdown else WriteOpen)\<rparr>))"
| "tunnel_to_tcp_step CopyErr (token, h) =
     (if task_done h then None else Some (True, h\<lparr>task_done := True, write_end := WriteShutdown\<rparr>))"
| "tunnel_to_tcp_step SeeCancelled (token, h) =
     (if task_done h \<or> \<not> token then None
      else Some (token, h\<lparr>task_done := True, write_end := WriteShutdown\<rparr>))"
| "tunnel_to_tcp_step ev (token, h) = map_option (\<lambda>h'. (token, h')) (copy_io ev h)"

section \<open>The pump\<close>

record pump =
  upstream :: half
  downstream :: half
  stream_token :: bool

definition pump_init :: pump where
  "pump_init = \<lparr>upstream = half_init, downstream = half_init, stream_token = False\<rparr>"

text \<open>\<open>ParentCancelled\<close>: the token is a child of the caller's, so it is cancelled with it.\<close>

datatype pump_event = Up copy_event | Down copy_event | ParentCancelled

fun pump_step :: "pump_event \<Rightarrow> pump \<Rightarrow> pump option" where
  "pump_step (Up ev) p =
     map_option (\<lambda>(token, h). p\<lparr>upstream := h, stream_token := token\<rparr>)
       (tcp_to_tunnel_step ev (stream_token p, upstream p))"
| "pump_step (Down ev) p =
     map_option (\<lambda>(token, h). p\<lparr>downstream := h, stream_token := token\<rparr>)
       (tunnel_to_tcp_step ev (stream_token p, downstream p))"
| "pump_step ParentCancelled p = Some (p\<lparr>stream_token := True\<rparr>)"

fun run_pump :: "pump_event list \<Rightarrow> pump \<Rightarrow> pump option" where
  "run_pump [] p = Some p"
| "run_pump (e # es) p = Option.bind (pump_step e p) (run_pump es)"

text \<open>The function returns when both tasks are done.\<close>

definition handle_protocol_v1_tcp_stream :: "pump_event list \<Rightarrow> unit run option" where
  "handle_protocol_v1_tcp_stream es =
     map_option (\<lambda>p. if task_done (upstream p) \<and> task_done (downstream p) then Returned () else Running)
       (run_pump es pump_init)"

section \<open>The invariant\<close>

text \<open>
  Nothing is lost, repeated or reordered on the way; a task that ended while the token was
  not cancelled has copied all of its source; the tunnel's stream is finished only then.
\<close>

definition half_inv :: "bool \<Rightarrow> half \<Rightarrow> bool" where
  "half_inv token h \<longleftrightarrow>
     written h @ pending h = arrived h \<and>
     (task_done h \<and> \<not> token \<longrightarrow> at_eof h \<and> pending h = []) \<and>
     (write_end h = WriteFinished \<longrightarrow> at_eof h \<and> pending h = [])"

definition pump_inv :: "pump \<Rightarrow> bool" where
  "pump_inv p \<longleftrightarrow> half_inv (stream_token p) (upstream p) \<and> half_inv (stream_token p) (downstream p)"

lemma half_inv_token: "half_inv token h \<Longrightarrow> half_inv (token \<or> b) h"
  by (auto simp: half_inv_def)

lemma copy_io_inv:
  assumes "copy_io ev h = Some h'" and "half_inv token h"
  shows "half_inv token h'"
proof (cases ev)
  case (Arrive bs)
  with assms show ?thesis by (auto simp: half_inv_def split: if_splits simp flip: append_assoc)
next
  case (Copy n)
  with assms show ?thesis by (auto simp: half_inv_def split: if_splits)
qed (use assms in \<open>auto simp: half_inv_def\<close>)

lemma tcp_to_tunnel_inv:
  assumes "tcp_to_tunnel_step ev (token, h) = Some (token', h')" and "half_inv token h"
  shows "half_inv token' h'" and "token \<Longrightarrow> token'"
  using assms copy_io_inv [of ev h _ token]
  by (cases ev; fastforce simp: half_inv_def split: if_splits)+

lemma tunnel_to_tcp_inv:
  assumes "tunnel_to_tcp_step ev (token, h) = Some (token', h')" and "half_inv token h"
  shows "half_inv token' h'" and "token \<Longrightarrow> token'"
  using assms copy_io_inv [of ev h _ token]
  by (cases ev; fastforce simp: half_inv_def split: if_splits)+

lemma pump_inv_init: "pump_inv pump_init"
  by (simp add: pump_inv_def half_inv_def pump_init_def half_init_def)

lemma pump_inv_step:
  assumes "pump_step e p = Some q" and "pump_inv p"
  shows "pump_inv q"
proof (cases e)
  case (Up ev)
  with assms(1) obtain token h where u: "tcp_to_tunnel_step ev (stream_token p, upstream p) = Some (token, h)"
    "q = p\<lparr>upstream := h, stream_token := token\<rparr>" by auto
  with assms(2) tcp_to_tunnel_inv [OF u(1)] half_inv_token [of "stream_token p" "downstream p" token]
  show ?thesis by (cases "stream_token p") (auto simp: pump_inv_def)
next
  case (Down ev)
  with assms(1) obtain token h where u: "tunnel_to_tcp_step ev (stream_token p, downstream p) = Some (token, h)"
    "q = p\<lparr>downstream := h, stream_token := token\<rparr>" by auto
  with assms(2) tunnel_to_tcp_inv [OF u(1)] half_inv_token [of "stream_token p" "upstream p" token]
  show ?thesis by (cases "stream_token p") (auto simp: pump_inv_def)
next
  case ParentCancelled
  then show ?thesis using assms half_inv_token [of "stream_token p" _ True] by (auto simp: pump_inv_def)
qed

lemma pump_inv_run: "run_pump es p = Some q \<Longrightarrow> pump_inv p \<Longrightarrow> pump_inv q"
  by (induction es arbitrary: p) (auto simp: bind_eq_Some_conv dest: pump_inv_step)

text \<open>The token is only ever cancelled by a failed copy or by the caller.\<close>

fun cancels :: "pump_event \<Rightarrow> bool" where
  "cancels (Up ev) = (ev = CopyErr)"
| "cancels (Down ev) = (ev = CopyErr)"
| "cancels ParentCancelled = True"

lemma token_step: "pump_step e p = Some q \<Longrightarrow> stream_token q = (stream_token p \<or> cancels e)"
proof (cases e)
  case (Up ev)
  assume "pump_step e p = Some q"
  with Up show ?thesis by (cases ev) (auto split: if_splits)
next
  case (Down ev)
  assume "pump_step e p = Some q"
  with Down show ?thesis by (cases ev) (auto split: if_splits)
qed auto

lemma token_run: "run_pump es p = Some q \<Longrightarrow> stream_token q = (stream_token p \<or> list_ex cancels es)"
  by (induction es arbitrary: p) (auto simp: bind_eq_Some_conv dest: token_step)

section \<open>Properties\<close>

text \<open>
  C15. Whatever arrives when, in both directions: what has been written is a prefix of what
  has arrived, unchanged and in order. As long as no copy failed and the caller did not
  cancel, a direction that is done has delivered everything, also when the other direction
  goes on (half-closed connections). The tunnel's stream is finished, rather than reset, only
  when everything was delivered.
\<close>

theorem pump_delivers:
  assumes "run_pump es pump_init = Some p"
  shows "written (upstream p) @ pending (upstream p) = arrived (upstream p) \<and>
    written (downstream p) @ pending (downstream p) = arrived (downstream p) \<and>
    (\<not> list_ex cancels es \<longrightarrow>
       (task_done (upstream p) \<longrightarrow> written (upstream p) = arrived (upstream p)) \<and>
       (task_done (downstream p) \<longrightarrow> written (downstream p) = arrived (downstream p))) \<and>
    (write_end (upstream p) = WriteFinished \<longrightarrow> written (upstream p) = arrived (upstream p) \<and> at_eof (upstream p))"
proof -
  have "pump_inv p" by (rule pump_inv_run [OF assms pump_inv_init])
  moreover have "stream_token p = list_ex cancels es" using token_run [OF assms] by (simp add: pump_init_def)
  ultimately show ?thesis by (auto simp: pump_inv_def half_inv_def)
qed

theorem pump_delivers_witness:
  "\<exists>p. run_pump [Up (Arrive [1, 2, 3]), Up (Copy 2), Down (Arrive [9]), Up (Copy 1), Up Eof, Up (CopyOk True)] pump_init = Some p \<and>
    written (upstream p) = arrived (upstream p) \<and> \<not> task_done (downstream p)"
proof -
  let ?es = "[Up (Arrive [1, 2, 3]), Up (Copy 2), Down (Arrive [9]), Up (Copy 1), Up Eof, Up (CopyOk True)]"
  obtain p where p: "run_pump ?es pump_init = Some p" "task_done (upstream p)" "\<not> task_done (downstream p)"
    by (simp add: pump_init_def half_init_def BUFFER_CAPACITY_def)
  from pump_delivers [OF p(1)] p show ?thesis by auto
qed

text \<open>
  Winding down: once a copy has failed or the caller has cancelled, each task that is
  not done can end at once, whatever is pending, and then the function returns, with the
  tunnel's stream finished or reset and not left open by the cancellation.
\<close>

lemma pump_winds_down:
  assumes "run_pump es pump_init = Some p" and "list_ex cancels es"
  shows "handle_protocol_v1_tcp_stream
      (es @ (if task_done (upstream p) then [] else [Up SeeCancelled]) @
       (if task_done (downstream p) then [] else [Down SeeCancelled])) = Some (Returned ())"
proof -
  have append: "run_pump (xs @ ys) q = Option.bind (run_pump xs q) (run_pump ys)" for xs ys q
    by (induction xs arbitrary: q) (simp_all cong: Option.bind_cong)
  have "stream_token p" using token_run [OF assms(1)] assms(2) by simp
  then show ?thesis by (auto simp: handle_protocol_v1_tcp_stream_def append assms(1))
qed

lemma pump_winds_down_witness:
  "handle_protocol_v1_tcp_stream [Down (Arrive [9]), ParentCancelled, Up SeeCancelled, Down SeeCancelled] =
    Some (Returned ())"
proof -
  obtain p where p: "run_pump [Down (Arrive [9]), ParentCancelled] pump_init = Some p"
    "\<not> task_done (upstream p)" "\<not> task_done (downstream p)"
    by (simp add: pump_init_def half_init_def)
  from pump_winds_down [OF p(1)] p(2,3) show ?thesis by simp
qed

end
