(* ===== verification/Tcp_Path.thy ===== *)
theory Tcp_Path
  imports Stream_Pump "HOL-Library.Sublist"
begin

text \<open>
  A TCP connection from end to end: a user's connection at the ingress, a stream of the
  tunnel, and the egress's connection to its target. Each side runs the byte pump of
  \<^verbatim>\<open>common/protocols/v1.rs\<close>; the stream between them is the QUIC library's, of which the
  documented behaviour is used: bytes arrive unchanged and in order, and the end of the stream
  is seen when it was finished and everything before has arrived. Everything else (delays,
  chunk sizes, errors, cancellation on either side) is left open.
\<close>

section \<open>Two pumps and a stream\<close>

text \<open>
  Whether the stream allows what the receiving pump sees: \<open>sender\<close> is the pump at the other
  end, whose upstream half writes to the stream.
\<close>

fun stream_allows :: "pump \<Rightarrow> pump_event \<Rightarrow> pump \<Rightarrow> bool" where
  "stream_allows sender (Down (Arrive bs)) receiver =
     prefix (arrived (downstream receiver) @ bs) (written (upstream sender))"
| "stream_allows sender (Down Eof) receiver =
     (write_end (upstream sender) = WriteFinished \<and> arrived (downstream receiver) = written (upstream sender))"
| "stream_allows sender _ receiver = True"

datatype path_event = AtIngress pump_event | AtEgress pump_event

fun path_step :: "path_event \<Rightarrow> pump \<times> pump \<Rightarrow> (pump \<times> pump) option" where
  "path_step (AtIngress ev) (i, e) =
     (if stream_allows e ev i then map_option (\<lambda>i'. (i', e)) (pump_step ev i) else None)"
| "path_step (AtEgress ev) (i, e) =
     (if stream_allows i ev e then map_option (\<lambda>e'. (i, e')) (pump_step ev e) else None)"

fun run_path :: "path_event list \<Rightarrow> pump \<times> pump \<Rightarrow> (pump \<times> pump) option" where
  "run_path [] x = Some x"
| "run_path (ev # evs) x = Option.bind (path_step ev x) (run_path evs)"

lemma run_path_append: "run_path (xs @ ys) x = Option.bind (run_path xs x) (run_path ys)"
  by (induction xs arbitrary: x) (simp_all cong: Option.bind_cong)

section \<open>One step of a pump\<close>

text \<open>What a step leaves alone, and that a finished half stays as it is.\<close>

definition finished_ok :: "pump \<Rightarrow> bool" where
  "finished_ok p \<longleftrightarrow> (write_end (upstream p) = WriteFinished \<longrightarrow> task_done (upstream p))"

lemma pump_step_upstream:
  assumes "pump_step ev p = Some q" and "finished_ok p"
  shows "finished_ok q" and "prefix (written (upstream p)) (written (upstream q))"
    and "task_done (upstream p) \<Longrightarrow> written (upstream q) = written (upstream p) \<and> write_end (upstream q) = write_end (upstream p)"
proof -
  have "finished_ok q \<and> prefix (written (upstream p)) (written (upstream q)) \<and>
    (task_done (upstream p) \<longrightarrow> written (upstream q) = written (upstream p) \<and> write_end (upstream q) = write_end (upstream p))"
  proof (cases ev)
    case (Up c)
    with assms show ?thesis by (cases c) (auto simp: finished_ok_def split: if_splits)
  qed (use assms in \<open>auto simp: finished_ok_def\<close>)
  then show "finished_ok q" and "prefix (written (upstream p)) (written (upstream q))"
    and "task_done (upstream p) \<Longrightarrow> written (upstream q) = written (upstream p) \<and> write_end (upstream q) = write_end (upstream p)"
    by blast+
qed

lemma pump_step_downstream:
  assumes "pump_step ev q = Some q'" and "stream_allows p ev q"
    and "prefix (arrived (downstream q)) (written (upstream p))"
    and "at_eof (downstream q) \<longrightarrow> write_end (upstream p) = WriteFinished \<and> arrived (downstream q) = written (upstream p)"
  shows "prefix (arrived (downstream q')) (written (upstream p)) \<and>
    (at_eof (downstream q') \<longrightarrow> write_end (upstream p) = WriteFinished \<and> arrived (downstream q') = written (upstream p))"
proof (cases ev)
  case (Down c)
  with assms show ?thesis by (cases c) (auto split: if_splits)
next
  case (Up c)
  with assms show ?thesis by (cases c) (auto split: if_splits)
qed (use assms in auto)

section \<open>The invariant\<close>

text \<open>The stream from \<open>p\<close> to \<open>q\<close>.\<close>

definition stream_inv :: "pump \<Rightarrow> pump \<Rightarrow> bool" where
  "stream_inv p q \<longleftrightarrow> prefix (arrived (downstream q)) (written (upstream p)) \<and>
     (at_eof (downstream q) \<longrightarrow> write_end (upstream p) = WriteFinished \<and> arrived (downstream q) = written (upstream p))"

definition path_inv :: "pump \<times> pump \<Rightarrow> bool" where
  "path_inv = (\<lambda>(i, e). pump_inv i \<and> pump_inv e \<and> finished_ok i \<and> finished_ok e \<and> stream_inv i e \<and> stream_inv e i)"

lemma stream_inv_sender:
  assumes "pump_step ev p = Some p'" and "finished_ok p" and "stream_inv p q"
  shows "stream_inv p' q"
  using pump_step_upstream [OF assms(1,2)] assms(2,3)
  by (auto simp: stream_inv_def finished_ok_def intro: prefix_order.trans)

lemma stream_inv_receiver:
  assumes "pump_step ev q = Some q'" and "stream_allows p ev q" and "stream_inv p q"
  shows "stream_inv p q'"
  using pump_step_downstream [OF assms(1,2)] assms(3) by (simp add: stream_inv_def)

lemma path_inv_step:
  assumes "path_step ev x = Some y" and "path_inv x"
  shows "path_inv y"
proof -
  obtain i e where x: "x = (i, e)" by (cases x)
  show ?thesis
  proof (cases ev)
    case (AtIngress c)
    with assms(1) x obtain i' where i': "pump_step c i = Some i'" "stream_allows e c i" "y = (i', e)"
      by (auto split: if_splits)
    then show ?thesis
      using assms(2) x pump_inv_step [OF i'(1)] pump_step_upstream(1) [OF i'(1)] stream_inv_sender [OF i'(1)]
        stream_inv_receiver [OF i'(1,2)] by (simp add: path_inv_def)
  next
    case (AtEgress c)
    with assms(1) x obtain e' where e': "pump_step c e = Some e'" "stream_allows i c e" "y = (i, e')"
      by (auto split: if_splits)
    then show ?thesis
      using assms(2) x pump_inv_step [OF e'(1)] pump_step_upstream(1) [OF e'(1)] stream_inv_sender [OF e'(1)]
        stream_inv_receiver [OF e'(1,2)] by (simp add: path_inv_def)
  qed
qed

lemma path_inv_run: "run_path evs x = Some y \<Longrightarrow> path_inv x \<Longrightarrow> path_inv y"
  by (induction evs arbitrary: x) (auto simp: bind_eq_Some_conv dest: path_inv_step)

lemma path_inv_init: "path_inv (pump_init, pump_init)"
  by (simp add: path_inv_def pump_inv_init stream_inv_def finished_ok_def)
    (simp add: pump_init_def half_init_def)

text \<open>The tokens, as for one pump.\<close>

fun cancels_ingress :: "path_event \<Rightarrow> bool" where
  "cancels_ingress (AtIngress ev) = cancels ev"
| "cancels_ingress (AtEgress ev) = False"

fun cancels_egress :: "path_event \<Rightarrow> bool" where
  "cancels_egress (AtIngress ev) = False"
| "cancels_egress (AtEgress ev) = cancels ev"

lemma path_tokens:
  "run_path evs (i, e) = Some (i', e') \<Longrightarrow>
    stream_token i' = (stream_token i \<or> list_ex cancels_ingress evs) \<and>
    stream_token e' = (stream_token e \<or> list_ex cancels_egress evs)"
proof (induction evs arbitrary: i e)
  case (Cons ev evs)
  then obtain i1 e1 where s: "path_step ev (i, e) = Some (i1, e1)" "run_path evs (i1, e1) = Some (i', e')"
    by (auto simp: bind_eq_Some_conv)
  show ?case using Cons.IH [OF s(2)] s(1) by (cases ev) (auto dest: token_step split: if_splits)
qed simp

section \<open>What the target gets\<close>

text \<open>
  What the target has been sent is a beginning of what the user has sent, and all of it when
  the egress ended the connection to the target without having been cancelled.
\<close>

lemma half_written: "half_inv token h \<Longrightarrow> prefix (written h) (arrived h)"
  unfolding half_inv_def by (metis prefixI)

lemma delivered:
  assumes "path_inv (i, e)"
  shows "prefix (written (downstream e)) (arrived (upstream i))"
    and "task_done (downstream e) \<Longrightarrow> \<not> stream_token e \<Longrightarrow>
      written (downstream e) = arrived (upstream i) \<and> at_eof (upstream i)"
proof -
  have inv: "half_inv (stream_token e) (downstream e)" "half_inv (stream_token i) (upstream i)" "stream_inv i e"
    using assms by (simp_all add: path_inv_def pump_inv_def)
  have "prefix (written (downstream e)) (arrived (downstream e))"
    "prefix (written (upstream i)) (arrived (upstream i))"
    by (rule half_written [OF inv(1)], rule half_written [OF inv(2)])
  then show "prefix (written (downstream e)) (arrived (upstream i))"
    using inv(3) by (meson prefix_order.trans stream_inv_def)
  show "written (downstream e) = arrived (upstream i) \<and> at_eof (upstream i)"
    if "task_done (downstream e)" "\<not> stream_token e"
    using that inv by (auto simp: half_inv_def stream_inv_def)
qed

lemma path_inv_swap: "path_inv (i, e) \<Longrightarrow> path_inv (e, i)"
  by (simp add: path_inv_def)

section \<open>Completing a connection\<close>

text \<open>A pump that copies what is pending, byte by byte if need be.\<close>

lemma copies_up:
  assumes "\<not> task_done (upstream i)"
  shows "run_path (replicate (length (pending (upstream i))) (AtIngress (Up (Copy (Suc 0))))) (i, e) =
    Some (i\<lparr>upstream := (upstream i)\<lparr>pending := [], written := written (upstream i) @ pending (upstream i)\<rparr>\<rparr>, e)"
  using assms
proof (induction "pending (upstream i)" arbitrary: i)
  case (Cons b bs)
  let ?i = "i\<lparr>upstream := (upstream i)\<lparr>pending := bs, written := written (upstream i) @ [b]\<rparr>\<rparr>"
  have p: "pending (upstream i) = b # bs" using Cons.hyps(2) by simp
  have "path_step (AtIngress (Up (Copy (Suc 0)))) (i, e) = Some (?i, e)"
    using Cons.prems by (simp add: p BUFFER_CAPACITY_def)
  moreover have "run_path (replicate (length bs) (AtIngress (Up (Copy (Suc 0))))) (?i, e) =
      Some (i\<lparr>upstream := (upstream i)\<lparr>pending := [], written := written (upstream i) @ b # bs\<rparr>\<rparr>, e)"
    using Cons.hyps(1) [of ?i] Cons.prems by simp
  ultimately show ?case using Cons.prems by (simp add: p BUFFER_CAPACITY_def)
qed simp

lemma copies_down:
  assumes "\<not> task_done (downstream e)"
  shows "run_path (replicate (length (pending (downstream e))) (AtEgress (Down (Copy (Suc 0))))) (i, e) =
    Some (i, e\<lparr>downstream := (downstream e)\<lparr>pending := [], written := written (downstream e) @ pending (downstream e)\<rparr>\<rparr>)"
  using assms
proof (induction "pending (downstream e)" arbitrary: e)
  case (Cons b bs)
  let ?e = "e\<lparr>downstream := (downstream e)\<lparr>pending := bs, written := written (downstream e) @ [b]\<rparr>\<rparr>"
  have p: "pending (downstream e) = b # bs" using Cons.hyps(2) by simp
  have "path_step (AtEgress (Down (Copy (Suc 0)))) (i, e) = Some (i, ?e)"
    using Cons.prems by (simp add: p BUFFER_CAPACITY_def)
  moreover have "run_path (replicate (length bs) (AtEgress (Down (Copy (Suc 0))))) (i, ?e) =
      Some (i, e\<lparr>downstream := (downstream e)\<lparr>pending := [], written := written (downstream e) @ b # bs\<rparr>\<rparr>)"
    using Cons.hyps(1) [of ?e] Cons.prems by simp
  ultimately show ?case using Cons.prems by (simp add: p BUFFER_CAPACITY_def)
qed simp

text \<open>Runs that touch only the direction from the user to the target, and cancel nothing.\<close>

definition towards_target :: "pump \<times> pump \<Rightarrow> pump \<times> pump \<Rightarrow> bool" where
  "towards_target x y \<longleftrightarrow> (\<exists>evs. run_path evs x = Some y) \<and>
     downstream (fst y) = downstream (fst x) \<and> upstream (snd y) = upstream (snd x) \<and>
     stream_token (fst y) = stream_token (fst x) \<and> stream_token (snd y) = stream_token (snd x) \<and>
     arrived (upstream (fst y)) = arrived (upstream (fst x))"

lemma towards_refl: "towards_target x x"
  unfolding towards_target_def by (intro conjI exI [of _ "[]"]) simp_all

lemma towards_trans:
  assumes "towards_target x y" and "towards_target y z"
  shows "towards_target x z"
proof -
  obtain xs ys where "run_path xs x = Some y" "run_path ys y = Some z"
    using assms by (auto simp: towards_target_def)
  then have "run_path (xs @ ys) x = Some z" by (simp add: run_path_append)
  with assms show ?thesis by (auto simp: towards_target_def)
qed

lemma towards_run:
  assumes "run_path evs (i, e) = Some (i', e')" "downstream i' = downstream i" "upstream e' = upstream e"
    "stream_token i' = stream_token i" "stream_token e' = stream_token e" "arrived (upstream i') = arrived (upstream i)"
  shows "towards_target (i, e) (i', e')"
  using assms by (auto simp: towards_target_def)

lemma finish_upstream:
  assumes "at_eof (upstream i)" and "task_done (upstream i) \<longrightarrow> write_end (upstream i) = WriteFinished"
  shows "\<exists>i'. towards_target (i, e) (i', e) \<and> task_done (upstream i') \<and> write_end (upstream i') = WriteFinished"
proof (cases "task_done (upstream i)")
  case True
  then show ?thesis using assms(2) towards_refl by blast
next
  case False
  let ?i = "i\<lparr>upstream := (upstream i)\<lparr>pending := [], written := written (upstream i) @ pending (upstream i),
    task_done := True, write_end := WriteFinished\<rparr>\<rparr>"
  have "run_path (replicate (length (pending (upstream i))) (AtIngress (Up (Copy (Suc 0)))) @ [AtIngress (Up (CopyOk True))]) (i, e) =
      Some (?i, e)"
    using assms(1) False by (simp add: run_path_append copies_up)
  then have "towards_target (i, e) (?i, e)" by (rule towards_run) simp_all
  then show ?thesis by (intro exI [of _ ?i]) simp
qed

lemma stream_arrives:
  assumes "stream_inv i e" and "write_end (upstream i) = WriteFinished"
  shows "\<exists>e'. towards_target (i, e) (i, e') \<and> at_eof (downstream e')"
proof (cases "at_eof (downstream e)")
  case True
  then show ?thesis using towards_refl by blast
next
  case False
  obtain rest where rest: "written (upstream i) = arrived (downstream e) @ rest"
    using assms(1) by (auto simp: stream_inv_def prefix_def)
  let ?e = "e\<lparr>downstream := (downstream e)\<lparr>pending := pending (downstream e) @ rest,
    arrived := arrived (downstream e) @ rest, at_eof := True\<rparr>\<rparr>"
  have "run_path [AtEgress (Down (Arrive rest)), AtEgress (Down Eof)] (i, e) = Some (i, ?e)"
    using False assms(2) rest by simp
  then have "towards_target (i, e) (i, ?e)" by (rule towards_run) simp_all
  then show ?thesis by (intro exI [of _ ?e]) simp
qed

lemma finish_downstream:
  assumes "at_eof (downstream e)"
  shows "\<exists>e'. towards_target (i, e) (i, e') \<and> task_done (downstream e')"
proof (cases "task_done (downstream e)")
  case True
  then show ?thesis using towards_refl by blast
next
  case False
  let ?e = "e\<lparr>downstream := (downstream e)\<lparr>pending := [], written := written (downstream e) @ pending (downstream e),
    task_done := True, write_end := WriteShutdown\<rparr>\<rparr>"
  have "run_path (replicate (length (pending (downstream e))) (AtEgress (Down (Copy (Suc 0)))) @ [AtEgress (Down (CopyOk True))]) (i, e) =
      Some (i, ?e)"
    using assms(1) False by (simp add: run_path_append copies_down)
  then have "towards_target (i, e) (i, ?e)" by (rule towards_run) simp_all
  then show ?thesis by (intro exI [of _ ?e]) simp
qed

lemma towards_inv: "towards_target x y \<Longrightarrow> path_inv x \<Longrightarrow> path_inv y"
  by (auto simp: towards_target_def dest: path_inv_run)

lemma direction_completes:
  assumes "path_inv (i, e)" and "at_eof (upstream i)"
    and "task_done (upstream i) \<longrightarrow> write_end (upstream i) = WriteFinished"
  shows "\<exists>i' e'. towards_target (i, e) (i', e') \<and> task_done (upstream i') \<and> task_done (downstream e')"
proof -
  obtain i' where i': "towards_target (i, e) (i', e)" "task_done (upstream i')" "write_end (upstream i') = WriteFinished"
    using finish_upstream [OF assms(2,3)] by blast
  have "stream_inv i' e" using towards_inv [OF i'(1) assms(1)] by (simp add: path_inv_def)
  then obtain e1 where e1: "towards_target (i', e) (i', e1)" "at_eof (downstream e1)"
    using stream_arrives [OF _ i'(3)] by blast
  obtain e' where e': "towards_target (i', e1) (i', e')" "task_done (downstream e')"
    using finish_downstream [OF e1(2)] by blast
  show ?thesis using towards_trans [OF towards_trans [OF i'(1) e1(1)] e'(1)] i'(2) e'(2) by blast
qed

text \<open>The other direction is the same with the sides exchanged.\<close>

fun other_side :: "path_event \<Rightarrow> path_event" where
  "other_side (AtIngress ev) = AtEgress ev"
| "other_side (AtEgress ev) = AtIngress ev"

lemma run_other_side: "run_path (map other_side evs) (e, i) = map_option prod.swap (run_path evs (i, e))"
proof (induction evs arbitrary: i e)
  case (Cons ev evs)
  have "path_step (other_side ev) (e, i) = map_option prod.swap (path_step ev (i, e))"
    by (cases ev) (simp_all add: option.map_comp comp_def)
  then show ?case
    by (cases "path_step ev (i, e)") (auto simp: Cons.IH)
qed simp

section \<open>Properties\<close>

text \<open>
  C3. A TCP connection through the tunnel, both ways, however the four copying tasks, the
  network, errors and cancellations interleave. What the target is sent is always a beginning
  of what the user sent, unchanged and in order, and the other way round. When the egress
  closes its connection to the target and nothing failed or was cancelled on its side, the
  target has got everything the user sent before closing, whatever happened at the ingress;
  and the other way round.
\<close>

theorem tcp_end_to_end:
  assumes "run_path evs (pump_init, pump_init) = Some (i, e)"
  shows "prefix (written (downstream e)) (arrived (upstream i)) \<and>
    prefix (written (downstream i)) (arrived (upstream e)) \<and>
    (task_done (downstream e) \<and> \<not> list_ex cancels_egress evs \<longrightarrow>
       written (downstream e) = arrived (upstream i) \<and> at_eof (upstream i)) \<and>
    (task_done (downstream i) \<and> \<not> list_ex cancels_ingress evs \<longrightarrow>
       written (downstream i) = arrived (upstream e) \<and> at_eof (upstream e))"
proof -
  have inv: "path_inv (i, e)" by (rule path_inv_run [OF assms path_inv_init])
  have "stream_token i = list_ex cancels_ingress evs" "stream_token e = list_ex cancels_egress evs"
    using path_tokens [OF assms] by (simp_all add: pump_init_def)
  then show ?thesis using delivered [OF inv] delivered [OF path_inv_swap [OF inv]] by blast
qed

theorem tcp_end_to_end_witness:
  "\<exists>i e. run_path [AtIngress (Up (Arrive [1, 2, 3])), AtIngress (Up (Copy 3)), AtEgress (Down (Arrive [1, 2])),
      AtIngress (Up Eof), AtIngress (Up (CopyOk True)), AtEgress (Down (Copy 2)), AtIngress ParentCancelled,
      AtEgress (Down (Arrive [3])), AtEgress (Down Eof), AtEgress (Down (Copy 1)), AtEgress (Down (CopyOk True))]
      (pump_init, pump_init) = Some (i, e) \<and>
    written (downstream e) = arrived (upstream i) \<and> arrived (upstream i) = [1, 2, 3]"
proof -
  let ?es = "[AtIngress (Up (Arrive [1, 2, 3])), AtIngress (Up (Copy 3)), AtEgress (Down (Arrive [1, 2])),
      AtIngress (Up Eof), AtIngress (Up (CopyOk True)), AtEgress (Down (Copy 2)), AtIngress ParentCancelled,
      AtEgress (Down (Arrive [3])), AtEgress (Down Eof), AtEgress (Down (Copy 1)), AtEgress (Down (CopyOk True))]"
  obtain i e where r: "run_path ?es (pump_init, pump_init) = Some (i, e)" "task_done (downstream e)"
    "arrived (upstream i) = [1, 2, 3]"
    by (simp add: pump_init_def half_init_def BUFFER_CAPACITY_def)
  then show ?thesis using tcp_end_to_end [OF r(1)] by auto
qed

text \<open>
  C16. No connection gets stuck: whatever has happened so far without an error or a
  cancellation, once the user and the target have both ended their side (and the stream could
  be finished where a task already ended), the four tasks can run to their end; then both
  pumps return, the target has got everything the user sent, and the user everything the
  target sent.
\<close>

theorem tcp_path_completes:
  assumes "run_path evs (pump_init, pump_init) = Some (i, e)"
    and "\<not> list_ex cancels_ingress evs" and "\<not> list_ex cancels_egress evs"
    and "at_eof (upstream i)" and "at_eof (upstream e)"
    and "task_done (upstream i) \<longrightarrow> write_end (upstream i) = WriteFinished"
    and "task_done (upstream e) \<longrightarrow> write_end (upstream e) = WriteFinished"
  shows "\<exists>evs' i' e'. run_path evs' (i, e) = Some (i', e') \<and>
    task_done (upstream i') \<and> task_done (downstream i') \<and> task_done (upstream e') \<and> task_done (downstream e') \<and>
    written (downstream e') = arrived (upstream i) \<and> written (downstream i') = arrived (upstream e)"
proof -
  have inv: "path_inv (i, e)" by (rule path_inv_run [OF assms(1) path_inv_init])
  have tok: "\<not> stream_token i" "\<not> stream_token e"
    using path_tokens [OF assms(1)] assms(2,3) by (simp_all add: pump_init_def)
  obtain i1 e1 where 1: "towards_target (i, e) (i1, e1)" "task_done (upstream i1)" "task_done (downstream e1)"
    using direction_completes [OF inv assms(4,6)] by blast
  then have same: "upstream e1 = upstream e" "downstream i1 = downstream i"
    "arrived (upstream i1) = arrived (upstream i)" "\<not> stream_token i1" "\<not> stream_token e1"
    using tok by (simp_all add: towards_target_def)
  have inv1: "path_inv (e1, i1)" by (rule path_inv_swap [OF towards_inv [OF 1(1) inv]])
  obtain e2 i2 where 2: "towards_target (e1, i1) (e2, i2)" "task_done (upstream e2)" "task_done (downstream i2)"
    using direction_completes [OF inv1] assms(5,7) same(1) by auto
  have inv2: "path_inv (e2, i2)" by (rule towards_inv [OF 2(1) inv1])
  have same2: "downstream e2 = downstream e1" "upstream i2 = upstream i1" "arrived (upstream e2) = arrived (upstream e)"
    "\<not> stream_token i2" "\<not> stream_token e2"
    using 2(1) same by (simp_all add: towards_target_def)
  obtain xs ys where r: "run_path xs (i, e) = Some (i1, e1)" "run_path ys (e1, i1) = Some (e2, i2)"
    using 1(1) 2(1) by (auto simp: towards_target_def)
  have "run_path (xs @ map other_side ys) (i, e) = Some (i2, e2)"
    using r run_other_side [of ys i1 e1] by (simp add: run_path_append)
  moreover have "written (downstream i2) = arrived (upstream e)"
    using delivered(2) [OF inv2] 2(3) same2(3,4) by simp
  moreover have "written (downstream e2) = arrived (upstream i)"
    using delivered(2) [OF path_inv_swap [OF inv2]] 1(3) same2 same(3) by simp
  ultimately show ?thesis using 1(2,3) 2(2,3) same2(1,2)
    by (intro exI [of _ "xs @ map other_side ys"] exI [of _ i2] exI [of _ e2]) simp
qed

theorem tcp_path_completes_witness:
  "\<exists>i e evs' i' e'. run_path [AtIngress (Up (Arrive [1, 2])), AtIngress (Up Eof), AtEgress (Up (Arrive [9])), AtEgress (Up Eof)]
      (pump_init, pump_init) = Some (i, e) \<and> run_path evs' (i, e) = Some (i', e') \<and>
    written (downstream e') = arrived (upstream i) \<and> task_done (downstream i')"
proof -
  let ?es = "[AtIngress (Up (Arrive [1, 2])), AtIngress (Up Eof), AtEgress (Up (Arrive [9])), AtEgress (Up Eof)]"
  obtain i e where r: "run_path ?es (pump_init, pump_init) = Some (i, e)" "at_eof (upstream i)" "at_eof (upstream e)"
    "\<not> task_done (upstream i)" "\<not> task_done (upstream e)"
    by (simp add: pump_init_def half_init_def)
  then show ?thesis using tcp_path_completes [OF r(1)] by fastforce
qed

end
