(* ===== verification/Frame_Stream.thy ===== *)
theory Frame_Stream
  imports Frames_V1
begin

text \<open>
  How the codec of \<^verbatim>\<open>common/frames/v1.rs\<close> behaves when a framed reader calls it, as the trait it
  implements documents: whenever bytes arrive they are appended to the buffer, and the decoder
  is called until it asks for more, fails or panics. The loop is a partial function, so that
  its termination is a theorem; bytes may arrive in any chunks.
\<close>

section \<open>The reader's loop\<close>

text \<open>The frames delivered, and what is left of the buffer or how the loop broke off.\<close>

partial_function (option) drain ::
    "(bytes \<Rightarrow> ('f option \<times> bytes, error) result) \<Rightarrow> bytes \<Rightarrow> ('f list \<times> (bytes, error) result) option" where
  "drain dec src = (case dec src of
     Ok (frame, rest) \<Rightarrow>
       (case frame of
          None \<Rightarrow> Some ([], Ok rest)
        | Some f \<Rightarrow> Option.bind (drain dec rest) (\<lambda>(fs, r). Some (f # fs, r)))
   | Err e \<Rightarrow> Some ([], Err e)
   | Panic \<Rightarrow> Some ([], Panic))"

fun feed ::
    "(bytes \<Rightarrow> ('f option \<times> bytes, error) result) \<Rightarrow> bytes \<Rightarrow> bytes list \<Rightarrow>
      ('f list \<times> (bytes, error) result) option" where
  "feed dec buffer [] = Some ([], Ok buffer)"
| "feed dec buffer (chunk # chunks) =
     Option.bind (drain dec (buffer @ chunk)) (\<lambda>(fs, r). case r of
       Ok rest \<Rightarrow> Option.bind (feed dec rest chunks) (\<lambda>(gs, r). Some (fs @ gs, r))
     | _ \<Rightarrow> Some (fs, r))"

lemma drain_simps:
  "dec src = Ok (None, rest) \<Longrightarrow> drain dec src = Some ([], Ok rest)"
  "dec src = Ok (Some f, rest) \<Longrightarrow> drain dec src = Option.bind (drain dec rest) (\<lambda>(fs, r). Some (f # fs, r))"
  "dec src = Err e \<Longrightarrow> drain dec src = Some ([], Err e)"
  "dec src = Panic \<Longrightarrow> drain dec src = Some ([], Panic)"
  by (subst drain.simps, simp)+

section \<open>Positions in a stream of frames\<close>

text \<open>
  After \<open>n\<close> bytes of a stream of frames: the frames that are complete, and how many bytes of
  the next one have arrived. \<open>boundaries\<close> are the positions at which chunks end.
\<close>

fun complete :: "('f \<Rightarrow> bytes) \<Rightarrow> 'f list \<Rightarrow> nat \<Rightarrow> 'f list" where
  "complete b [] n = []"
| "complete b (f # fs) n = (if n < length (b f) then [] else f # complete b fs (n - length (b f)))"

fun begun :: "('f \<Rightarrow> bytes) \<Rightarrow> 'f list \<Rightarrow> nat \<Rightarrow> nat" where
  "begun b [] n = n"
| "begun b (f # fs) n = (if n < length (b f) then n else begun b fs (n - length (b f)))"

fun boundaries :: "nat \<Rightarrow> bytes list \<Rightarrow> nat list" where
  "boundaries n [] = []"
| "boundaries n (c # cs) = (n + length c) # boundaries (n + length c) cs"

abbreviation stream_of :: "('f \<Rightarrow> bytes) \<Rightarrow> 'f list \<Rightarrow> bytes" where
  "stream_of b fs \<equiv> concat (map b fs)"

lemma find_map: "find P (map h xs) = map_option h (find (P \<circ> h) xs)"
  by (induction xs) simp_all

lemma boundaries_shift: "boundaries (d + n) cs = map ((+) d) (boundaries n cs)"
  by (induction cs arbitrary: n) (simp_all add: add.assoc)

lemma position_append:
  "complete b (gs @ fs) (length (stream_of b gs) + n) = gs @ complete b fs n"
  "begun b (gs @ fs) (length (stream_of b gs) + n) = begun b fs n"
  by (induction gs) (simp_all add: add.assoc)

lemma complete_split:
  assumes "n \<le> length (stream_of b fs)"
  obtains gs where "fs = complete b fs n @ gs" and "n = length (stream_of b (complete b fs n)) + begun b fs n"
    and "complete b gs (begun b fs n) = []" and "begun b fs n \<le> length (stream_of b gs)"
  using assms
proof (induction fs arbitrary: n thesis)
  case (Cons f fs)
  show ?case
  proof (cases "n < length (b f)")
    case True
    then show ?thesis by (intro Cons.prems(1) [of "f # fs"]) simp_all
  next
    case False
    then have "n - length (b f) \<le> length (stream_of b fs)" using Cons.prems(2) by simp
    from Cons.IH [OF _ this] obtain gs where "fs = complete b fs (n - length (b f)) @ gs"
      "n - length (b f) = length (stream_of b (complete b fs (n - length (b f)))) + begun b fs (n - length (b f))"
      "complete b gs (begun b fs (n - length (b f))) = []" "begun b fs (n - length (b f)) \<le> length (stream_of b gs)" by blast
    with False show ?thesis by (intro Cons.prems(1) [of gs]) simp_all
  qed
qed simp

section \<open>A codec read in chunks\<close>

text \<open>
  What the loop relies on: a delivered frame is well-formed and consumed something, a request
  for more leaves the buffer as it is, and a buffer with an unfinished frame either asks for
  more or panics, depending on how many bytes of the frame have arrived.
\<close>

locale chunked_codec = stream_codec +
  fixes cut :: "nat \<Rightarrow> bool"
  assumes dec_empty: "lib_ok L \<Longrightarrow> dec L [] = Ok (None, [])" and cut_0: "\<not> cut 0"
    and dec_progress: "lib_ok L \<Longrightarrow> dec L src = Ok (Some f, rest) \<Longrightarrow> item_ok f \<and> length rest < length src"
    and dec_waits: "lib_ok L \<Longrightarrow> dec L src = Ok (None, rest) \<Longrightarrow> rest = src"
    and dec_partial: "lib_ok L \<Longrightarrow> item_ok f \<Longrightarrow> p @ q = item_bytes L f \<Longrightarrow> q \<noteq> [] \<Longrightarrow>
      dec L p = (if cut (length p) then Panic else Ok (None, p))"
begin

lemma drain_terminates:
  assumes L: "lib_ok L"
  shows "\<exists>fs r. drain (dec L) src = Some (fs, r) \<and> list_all item_ok fs \<and> length fs \<le> length src \<and>
    (\<forall>rest. r = Ok rest \<longrightarrow> length fs + length rest \<le> length src \<and> dec L rest = Ok (None, rest))"
proof (induction "length src" arbitrary: src rule: less_induct)
  case less
  show ?case
  proof (cases "dec L src")
    case (Ok x)
    obtain frame rest where x: "x = (frame, rest)" by (cases x)
    show ?thesis
    proof (cases frame)
      case None
      then show ?thesis using Ok x dec_waits [OF L] by (auto simp: drain_simps)
    next
      case (Some f)
      then have step: "item_ok f" "length rest < length src" using dec_progress [OF L] Ok x by auto
      from less [OF step(2)] obtain fs r where r: "drain (dec L) rest = Some (fs, r)" "list_all item_ok fs"
        "length fs \<le> length rest"
        "\<forall>rest'. r = Ok rest' \<longrightarrow> length fs + length rest' \<le> length rest \<and> dec L rest' = Ok (None, rest')" by blast
      have "drain (dec L) src = Some (f # fs, r)" using Ok x Some r(1) by (simp add: drain_simps)
      with r step show ?thesis by fastforce
    qed
  qed (simp_all add: drain_simps)
qed

lemma drain_prefix:
  assumes "lib_ok L" and "list_all item_ok fs" and "p @ q = stream_of (item_bytes L) fs"
  shows "drain (dec L) p = Some (complete (item_bytes L) fs (length p),
    if cut (begun (item_bytes L) fs (length p)) then Panic
    else Ok (drop (length (stream_of (item_bytes L) (complete (item_bytes L) fs (length p)))) p))"
  using assms(2,3)
proof (induction fs arbitrary: p)
  case Nil
  then show ?case using dec_empty [OF assms(1)] cut_0 by (simp add: drain_simps)
next
  case (Cons f fs)
  let ?b = "item_bytes L"
  show ?case
  proof (cases "length p < length (?b f)")
    case True
    with Cons.prems(2) obtain q' where q': "p @ q' = ?b f" by (auto simp: append_eq_append_conv2)
    then have "q' \<noteq> []" using True by auto
    show ?thesis
      using dec_partial [OF assms(1) _ q' \<open>q' \<noteq> []\<close>] Cons.prems(1) True by (simp add: drain_simps)
  next
    case False
    define p' where "p' = drop (length (?b f)) p"
    have "take (length (?b f)) (p @ q) = ?b f" "drop (length (?b f)) (p @ q) = stream_of ?b fs"
      unfolding Cons.prems(2) by simp_all
    with False have p': "p = ?b f @ p'" "p' @ q = stream_of ?b fs"
      by (simp_all add: p'_def) (metis append_take_drop_id)
    have "drain (dec L) p = Option.bind (drain (dec L) p') (\<lambda>(fs, r). Some (f # fs, r))"
      using dec_item [OF assms(1), of f p'] Cons.prems(1) p'(1) by (simp add: drain_simps)
    then show ?thesis using Cons.IH [OF _ p'(2)] Cons.prems(1) p'(1) by simp
  qed
qed

text \<open>However a stream of frames is cut into chunks, the reader delivers it, or it panics at the first bad cut.\<close>

lemma feed_stream:
  assumes "lib_ok L" and "list_all item_ok fs" and "r @ concat cs = stream_of (item_bytes L) fs"
    and "complete (item_bytes L) fs (length r) = []"
  shows "feed (dec L) r cs =
    (case find (\<lambda>n. cut (begun (item_bytes L) fs n)) (boundaries (length r) cs) of
       None \<Rightarrow> Some (fs, Ok [])
     | Some n \<Rightarrow> Some (complete (item_bytes L) fs n, Panic))"
  using assms(2-)
proof (induction cs arbitrary: fs r)
  case Nil
  then have "fs = []" by (cases fs) (auto split: if_splits)
  with Nil show ?case by simp
next
  case (Cons c cs)
  let ?b = "item_bytes L"
  let ?n = "length r + length c"
  have whole: "(r @ c) @ concat cs = stream_of ?b fs" using Cons.prems(2) by simp
  have drained: "drain (dec L) (r @ c) = Some (complete ?b fs ?n, if cut (begun ?b fs ?n) then Panic
      else Ok (drop (length (stream_of ?b (complete ?b fs ?n))) (r @ c)))"
    using drain_prefix [OF assms(1) Cons.prems(1) whole] by simp
  show ?case
  proof (cases "cut (begun ?b fs ?n)")
    case True
    then show ?thesis using drained by simp
  next
    case False
    have "?n \<le> length (stream_of ?b fs)" using arg_cong [OF whole, of length] by simp
    then obtain gs where gs: "fs = complete ?b fs ?n @ gs"
      "?n = length (stream_of ?b (complete ?b fs ?n)) + begun ?b fs ?n"
      "complete ?b gs (begun ?b fs ?n) = []"
      by (rule complete_split) blast
    define ready rest where "ready = complete ?b fs ?n" and "rest = drop (length (stream_of ?b ready)) (r @ c)"
    let ?d = "length (stream_of ?b ready)"
    have fs: "fs = ready @ gs" using gs(1) by (simp add: ready_def)
    have len: "length rest = begun ?b fs ?n" using gs(2) by (simp add: rest_def ready_def)
    have d: "?d \<le> ?n" using gs(2) by (simp add: ready_def)
    have n: "?n = ?d + length rest" using d by (simp add: rest_def)
    have "rest @ concat cs = drop ?d (stream_of ?b fs)" using whole d by (simp add: rest_def flip: whole)
    then have rest: "rest @ concat cs = stream_of ?b gs" by (simp add: fs)
    have IH: "feed (dec L) rest cs = (case find (\<lambda>n. cut (begun ?b gs n)) (boundaries (length rest) cs) of
         None \<Rightarrow> Some (gs, Ok []) | Some n \<Rightarrow> Some (complete ?b gs n, Panic))"
      by (rule Cons.IH) (use Cons.prems(1) fs rest gs(3) len in simp_all)
    have shifted: "boundaries ?n cs = map ((+) ?d) (boundaries (length rest) cs)"
      unfolding n by (rule boundaries_shift)
    have find: "find (\<lambda>n. cut (begun ?b fs n)) (boundaries ?n cs) =
        map_option ((+) ?d) (find (\<lambda>n. cut (begun ?b gs n)) (boundaries (length rest) cs))"
      unfolding shifted fs by (simp add: find_map position_append comp_def)
    have "feed (dec L) r (c # cs) = Option.bind (feed (dec L) rest cs) (\<lambda>(gs, r). Some (ready @ gs, r))"
      using drained False by (simp add: ready_def rest_def)
    then show ?thesis
      using False find fs by (simp add: IH position_append split: option.split)
  qed
qed

end

section \<open>The codec of the protocol\<close>

lemma decode_None:
  assumes B: "bytes_contract B" and d: "decode B U src = Ok (None, r)"
  shows "r = src"
proof (cases src rule: decode_panics.cases)
  case (4 t a b body)
  show ?thesis using d
    unfolding 4 by (auto simp: decode_def decode_auth_body [OF B] decode_authenticated_body [OF B]
      and_then_iffs B crate_laws split: list.splits option.splits if_splits)
qed (use d in \<open>auto simp: decode_def decode_auth_def decode_authenticated_def B crate_laws split: if_splits\<close>)

text \<open>A frame is cut badly after its first or its second byte.\<close>

definition bad_cut :: "nat \<Rightarrow> bool" where
  "bad_cut n \<longleftrightarrow> n = 1 \<or> n = 2"

interpretation chunked_v1: chunked_codec
  "\<lambda>(B, U). bytes_contract B \<and> uuid_contract U" "\<lambda>(B, U). encode B U" "\<lambda>(B, U). decode B U"
  frame_ok "\<lambda>(B, U). frame_bytes U" bad_cut
  by unfold_locales
    (auto simp: bad_cut_def decode_def dest: decode_Some decode_None intro: decode_prefix [THEN trans])

lemma complete_frames_0: "complete (frame_bytes U) fs 0 = []"
  by (cases fs) (simp_all add: frame_bytes_hd)

section \<open>Properties\<close>

text \<open>
  C13. Whatever bytes a peer sends, the loop that decodes a buffer ends: it delivers at most as
  many frames as there are bytes, all of them well-formed, and stops with an error, with a
  panic, or with a rest from which no further frame can be read.
\<close>

theorem decoding_terminates:
  assumes "bytes_contract B" and "uuid_contract U"
  shows "\<exists>fs r. drain (decode B U) src = Some (fs, r) \<and> list_all frame_ok fs \<and> length fs \<le> length src \<and>
    (\<forall>rest. r = Ok rest \<longrightarrow> length fs + length rest \<le> length src \<and> decode B U rest = Ok (None, rest))"
  using chunked_v1.drain_terminates [of "(B, U)" src] assms by simp

theorem decoding_terminates_witness:
  "\<exists>fs r. drain (decode list_bytes uuid16_crate) [3, 4, 0, 0, 1] = Some (fs, r) \<and> list_all frame_ok fs"
  using decoding_terminates [OF list_bytes_contract uuid16_contract, of "[3, 4, 0, 0, 1]"] by blast

text \<open>
  C4. Into whatever chunks the network cuts a stream of frames, the reader delivers the same
  frames in the same order as if the bytes had arrived at once, with one exception: if a chunk
  ends after the first or the second byte of an auth or authenticated frame, the reader
  panics there, after it has delivered exactly the frames that were complete.
\<close>

theorem chunks_equal_whole:
  assumes "bytes_contract B" and "uuid_contract U" and "list_all frame_ok fs"
    and "encode_all (encode B U) fs [] = Ok (concat chunks)"
  shows "feed (decode B U) [] chunks =
    (case find (\<lambda>n. bad_cut (begun (frame_bytes U) fs n)) (boundaries 0 chunks) of
       None \<Rightarrow> drain (decode B U) (concat chunks)
     | Some n \<Rightarrow> Some (complete (frame_bytes U) fs n, Panic)) \<and>
   drain (decode B U) (concat chunks) = Some (fs, Ok [])"
proof -
  have whole: "concat chunks = stream_of (frame_bytes U) fs"
    using codec_v1.encode_all_appends [of "(B, U)" fs "[]"] assms by simp
  have "drain (decode B U) (concat chunks) = Some (fs, Ok [])"
    using chunked_v1.drain_prefix [of "(B, U)" fs "concat chunks" "[]"] assms(1-3) whole
      position_append [of "frame_bytes U" fs "[]" 0]
    by (simp add: bad_cut_def)
  then show ?thesis
    using chunked_v1.feed_stream [of "(B, U)" fs "[]" chunks] assms(1-3) whole complete_frames_0 [of U fs] by (simp split: option.split)
qed

theorem chunks_equal_whole_witness:
  "feed (decode list_bytes uuid16_crate) [] [[3, 0], [0, 4, 1, 107, 1, 105]] = Some ([Ping], Panic) \<and>
   drain (decode list_bytes uuid16_crate) [3, 0, 0, 4, 1, 107, 1, 105] =
     Some ([Ping, Auth (AuthKey [107]) (IngressId [105])], Ok [])"
proof -
  let ?fs = "[Ping, Auth (AuthKey [107]) (IngressId [105])] :: uuid16 frame_v1 list"
  have bytes: "frame_bytes uuid16_crate Ping = [3]"
    "frame_bytes uuid16_crate (Auth (AuthKey [107]) (IngressId [105])) = [0, 0, 4, 1, 107, 1, 105]"
    by (simp_all add: type_defs u16_to_be_def)
  have "list_all frame_ok ?fs" by (simp add: id_text_ok_def)
  moreover have "encode_all (encode list_bytes uuid16_crate) ?fs [] = Ok (concat [[3, 0], [0, 4, 1, 107, 1, 105]])"
    using codec_v1.encode_all_appends [of "(list_bytes, uuid16_crate)" ?fs "[]"] by (simp add: bytes del: frame_bytes.simps)
  ultimately show ?thesis
    using chunks_equal_whole [OF list_bytes_contract uuid16_contract, of ?fs "[[3, 0], [0, 4, 1, 107, 1, 105]]"]
    by (simp add: bytes bad_cut_def del: frame_bytes.simps)
qed

end
