(* ===== verification/Command_Exchange.thy ===== *)
theory Command_Exchange
  imports Server Client Frame_Stream "HOL-Library.Sublist"
begin

text \<open>
  The command stream between a server and a client after the handshake: each side runs its
  command loop (both \<^verbatim>\<open>protocols/v1.rs\<close>), and each reads, in chunks, the bytes of the frames
  that the other has sent. The two loops share a contract, which is the locale below.
\<close>

section \<open>Events without failures\<close>

fun healthy :: "'u command_event \<Rightarrow> bool" where
  "healthy (PingDue sent) = is_ok sent"
| "healthy (FrameRead (Some (Ok f)) sent) = is_ok sent"
| "healthy (FrameRead _ sent) = False"

fun frames_read :: "'u command_event list \<Rightarrow> 'u frame_v1 list" where
  "frames_read [] = []"
| "frames_read (FrameRead (Some (Ok f)) sent # es) = f # frames_read es"
| "frames_read (_ # es) = frames_read es"

fun ticks :: "'u command_event list \<Rightarrow> nat" where
  "ticks [] = 0"
| "ticks (PingDue sent # es) = Suc (ticks es)"
| "ticks (FrameRead f sent # es) = ticks es"

lemma command_reply_frame: "command_reply (FrameRead (Some (Ok f)) sent) = (if f = Ping then [Pong] else [])"
  by (cases f) simp_all

lemma count_list_take: "count_list (take n xs) x \<le> count_list xs x"
  by (metis append_take_drop_id count_list_append le_add1)

section \<open>The contract of a command loop\<close>

text \<open>
  While nothing fails, the frames sent are the replies to the events, in their order: a ping
  at every tick, a pong for every ping, and nothing for a pong.
\<close>

locale command_loop =
  fixes sends :: "'u command_event list \<Rightarrow> 'u frame_v1 list" and goes_on :: "'u command_event list \<Rightarrow> bool"
  assumes sends_replies: "list_all healthy es \<Longrightarrow> sends es = concat (map command_reply es)"
    and keeps_going: "list_all healthy es \<Longrightarrow> goes_on es"
begin

lemma sends_counts:
  assumes "list_all healthy es"
  shows "count_list (sends es) Ping = ticks es" and "count_list (sends es) Pong = count_list (frames_read es) Ping"
    and "length (sends es) = ticks es + count_list (frames_read es) Ping" and "set (sends es) \<subseteq> {Ping, Pong}"
proof -
  have "count_list (concat (map command_reply es)) Ping = ticks es \<and>
      count_list (concat (map command_reply es)) Pong = count_list (frames_read es) Ping \<and>
      length (concat (map command_reply es)) = ticks es + count_list (frames_read es) Ping \<and>
      set (concat (map command_reply es)) \<subseteq> {Ping, Pong}"
    using assms by (induction es rule: frames_read.induct) (auto simp: command_reply_frame simp del: command_reply.simps(2,3))
  then show "count_list (sends es) Ping = ticks es" "count_list (sends es) Pong = count_list (frames_read es) Ping"
    "length (sends es) = ticks es + count_list (frames_read es) Ping" "set (sends es) \<subseteq> {Ping, Pong}"
    using sends_replies [OF assms] by simp_all
qed

end

lemma up_to_end_all: "list_all go es \<Longrightarrow> up_to_end go es = es"
  by (induction es) simp_all

lemma dropWhile_all: "list_all go es \<Longrightarrow> dropWhile go es = []"
  by (induction es) simp_all

lemma healthy_goes_on:
  "healthy ev \<Longrightarrow> command_goes_on ev" "healthy ev \<Longrightarrow> client_goes_on ev"
  by (cases ev rule: command_goes_on.cases; simp add: is_ok_def split: result.splits)+

lemma client_reply_eq: "client_reply ev = command_reply ev"
  by (cases ev rule: command_reply.cases) simp_all

interpretation server_loop: command_loop
  "\<lambda>es. fst (handle_server_protocol_v1_command_stream es)"
  "\<lambda>es. snd (handle_server_protocol_v1_command_stream es) = Running"
  by unfold_locales
    (auto simp: server_commands up_to_end_all list_all_iff healthy_goes_on)

interpretation client_loop: command_loop
  "\<lambda>es. fst (handle_client_protocol_v1_command_stream c es)"
  "\<lambda>es. snd (handle_client_protocol_v1_command_stream c es) = ([], Running)"
  for c
proof unfold_locales
  fix es :: "'u command_event list"
  assume "list_all healthy es"
  then have go: "list_all client_goes_on es" by (auto simp: list_all_iff healthy_goes_on)
  show "fst (handle_client_protocol_v1_command_stream c es) = concat (map command_reply es)"
    "snd (handle_client_protocol_v1_command_stream c es) = ([], Running)"
    using client_commands [of c es] go by (simp_all add: up_to_end_all dropWhile_all client_reply_eq prod_eq_iff cong: map_cong)
qed

section \<open>Pings and pongs on the wire\<close>

lemma begun_one_byte:
  "list_all (\<lambda>f. length (b f) = 1) fs \<Longrightarrow> n \<le> length fs \<Longrightarrow> begun b fs n = 0"
  by (induction fs arbitrary: n) auto

lemma one_byte_stream: "list_all (\<lambda>f. length (b f) = 1) fs \<Longrightarrow> length (stream_of b fs) = length fs"
  by (induction fs) auto

lemma one_byte_prefix:
  assumes "list_all (\<lambda>f. length (b f) = 1) fs" and "prefix p (stream_of b fs)"
  shows "p = stream_of b (take (length p) fs)"
  using assms
proof (induction fs arbitrary: p)
  case (Cons f fs)
  obtain x where x: "b f = [x]" using Cons.prems(1) by (auto simp: length_Suc_conv)
  show ?case using Cons x by (cases p) auto
qed simp

lemma boundaries_bounded: "n \<in> set (boundaries m cs) \<Longrightarrow> n \<le> m + length (concat cs)"
  by (induction cs arbitrary: m) force+

text \<open>Frames of one byte are read as they were sent, in whatever chunks, as far as they have arrived.\<close>

lemma commands_on_the_wire:
  assumes "bytes_contract B" "uuid_contract U" "set fs \<subseteq> {Ping, Pong}"
    and "prefix (concat chunks) (stream_of (frame_bytes U) fs)"
  shows "feed (decode B U) [] chunks = Some (take (length (concat chunks)) fs, Ok [])"
proof -
  let ?fs = "take (length (concat chunks)) fs"
  have one: "list_all (\<lambda>f. length (frame_bytes U f) = 1) fs" using assms(3) by (auto simp: list_all_iff)
  then have one': "list_all (\<lambda>f. length (frame_bytes U f) = 1) ?fs" by (auto simp: list_all_iff dest: in_set_takeD)
  have ok: "list_all frame_ok ?fs" using assms(3) by (auto simp: list_all_iff dest!: in_set_takeD)
  have whole: "concat chunks = stream_of (frame_bytes U) ?fs" by (rule one_byte_prefix [OF one assms(4)])
  have "begun (frame_bytes U) ?fs n = 0" if "n \<in> set (boundaries 0 chunks)" for n
    using begun_one_byte [OF one'] boundaries_bounded [OF that] one_byte_stream [OF one'] whole by simp
  then have "find (\<lambda>n. bad_cut (begun (frame_bytes U) ?fs n)) (boundaries 0 chunks) = None"
    by (auto simp: find_None_iff bad_cut_def)
  then show ?thesis
    using chunked_v1.feed_stream [of "(B, U)" ?fs "[]" chunks] assms(1,2) ok whole complete_frames_0 [of U ?fs] by simp
qed

section \<open>Property\<close>

text \<open>
  C20. The command stream of a tunnel, from both ends and through the codec. As long as
  nothing fails, whatever the network delivers so far, in whatever chunks, neither loop ends
  and the client closes nothing; the two sides together send at most twice as many frames
  as their timers ticked, so pings and pongs never feed each other; and once everything
  sent has been read, each side has received exactly one pong for every ping it sent.
\<close>

theorem command_exchange:
  assumes "bytes_contract B" and "uuid_contract U" and "list_all healthy es" and "list_all healthy es'"
    and "handle_server_protocol_v1_command_stream es = (fs, r)"
    and "handle_client_protocol_v1_command_stream c es' = (fs', calls, r')"
    and "feed (decode B U) [] chunks = Some (frames_read es, Ok [])"
    and "feed (decode B U) [] chunks' = Some (frames_read es', Ok [])"
    and "prefix (concat chunks) (concat (map (frame_bytes U) fs'))"
    and "prefix (concat chunks') (concat (map (frame_bytes U) fs))"
  shows "r = Running \<and> r' = Running \<and> calls = [] \<and>
    length fs + length fs' \<le> 2 * (ticks es + ticks es') \<and>
    (concat chunks = concat (map (frame_bytes U) fs') \<and> concat chunks' = concat (map (frame_bytes U) fs) \<longrightarrow>
      count_list (frames_read es) Pong = ticks es \<and> count_list (frames_read es') Pong = ticks es')"
proof -
  note s = server_loop.sends_counts [OF assms(3), unfolded assms(5) fst_conv]
  note c = client_loop.sends_counts [OF assms(4), of c, unfolded assms(6) fst_conv]
  have arrived: "frames_read es = take (length (concat chunks)) fs'" "frames_read es' = take (length (concat chunks')) fs"
    using commands_on_the_wire [OF assms(1,2) c(4) assms(9)] commands_on_the_wire [OF assms(1,2) s(4) assms(10)] assms(7,8)
    by simp_all
  have less: "count_list (frames_read es) Ping \<le> ticks es'" "count_list (frames_read es') Ping \<le> ticks es"
    unfolding arrived using s(1) c(1) count_list_take [of _ fs Ping] count_list_take [of _ fs' Ping] by simp_all
  have one: "list_all (\<lambda>f. length (frame_bytes U f) = 1) fs" "list_all (\<lambda>f. length (frame_bytes U f) = 1) fs'"
    using s(4) c(4) by (auto simp: list_all_iff)
  have all: "frames_read es = fs'" if "concat chunks = stream_of (frame_bytes U) fs'"
    using arrived(1) one_byte_stream [OF one(2)] by (simp add: that)
  have all': "frames_read es' = fs" if "concat chunks' = stream_of (frame_bytes U) fs"
    using arrived(2) one_byte_stream [OF one(1)] by (simp add: that)
  have "count_list (frames_read es) Pong = ticks es \<and> count_list (frames_read es') Pong = ticks es'"
    if "concat chunks = stream_of (frame_bytes U) fs'" "concat chunks' = stream_of (frame_bytes U) fs"
    using s(1,2) c(1,2) unfolding all [OF that(1)] all' [OF that(2)] by simp
  moreover have "r = Running" "r' = Running" "calls = []"
    using server_loop.keeps_going [OF assms(3)] client_loop.keeps_going [OF assms(4), of c] assms(5,6) by simp_all
  moreover have "length fs + length fs' \<le> 2 * (ticks es + ticks es')" using s(3) c(3) less by simp
  ultimately show ?thesis by blast
qed

theorem command_exchange_witness:
  "\<exists>fs r fs' calls r'.
    handle_server_protocol_v1_command_stream
      ([PingDue (Ok ()), FrameRead (Some (Ok Pong)) (Ok ())] :: uuid16 command_event list) = (fs, r) \<and>
    handle_client_protocol_v1_command_stream 4 ([FrameRead (Some (Ok Ping)) (Ok ())] :: uuid16 command_event list) =
      (fs', calls, r') \<and>
    length fs + length fs' \<le> 2 \<and> r = Running \<and> r' = Running \<and> calls = []"
proof -
  let ?es = "[PingDue (Ok ()), FrameRead (Some (Ok Pong)) (Ok ())] :: uuid16 command_event list"
  let ?es' = "[FrameRead (Some (Ok Ping)) (Ok ())] :: uuid16 command_event list"
  have s: "handle_server_protocol_v1_command_stream ?es = ([Ping], Running)"
    and c: "handle_client_protocol_v1_command_stream 4 ?es' = ([Pong], [], Running)" by simp_all
  have h: "list_all healthy ?es" "list_all healthy ?es'" by (simp_all add: is_ok_def)
  have "feed (decode list_bytes uuid16_crate) [] [[PONG_TYPE]] = Some (frames_read ?es, Ok [])"
    "feed (decode list_bytes uuid16_crate) [] [[PING_TYPE]] = Some (frames_read ?es', Ok [])"
    using commands_on_the_wire [OF list_bytes_contract uuid16_contract, of "[Pong]" "[[PONG_TYPE]]"]
      commands_on_the_wire [OF list_bytes_contract uuid16_contract, of "[Ping]" "[[PING_TYPE]]"] by simp_all
  from command_exchange [OF list_bytes_contract uuid16_contract h s c this]
  have "length [Ping :: uuid16 frame_v1] + length [Pong :: uuid16 frame_v1] \<le> 2" by simp
  with s c show ?thesis by blast
qed

end
