(* ===== verification/Tunnel_Shutdown.thy ===== *)
theory Tunnel_Shutdown
  imports Command_Exchange
begin

text \<open>
  How the end of a tunnel at one side is taken at the other. The side that ends it closes
  the connection with a code (\<open>tunnel_close\<close> of \<^verbatim>\<open>common/tunnel.rs\<close>, or the command loop of
  \<^verbatim>\<open>client/protocols/v1.rs\<close>); what the other side still waits for then fails with that code, is
  converted by \<^verbatim>\<open>common/error.rs\<close> and ends, or does not end, the loops that wait.
\<close>

section \<open>What crosses the connection\<close>

text \<open>The error that pending operations of the peer fail with after some calls: the first close counts.\<close>

fun peer_sees :: "quic_call list \<Rightarrow> connection_error option" where
  "peer_sees [] = None"
| "peer_sees (CloseConnection c code reason # calls) =
     Some (ApplicationClosed \<lparr>error_code = code, close_reason = reason\<rparr>)"
| "peer_sees (_ # calls) = peer_sees calls"

text \<open>The frame reader gets the same error behind a read error and an I/O error.\<close>

definition reader_sees :: "connection_error \<Rightarrow> error" where
  "reader_sees e = from_io_error (IoRead (ReadConnectionLost e))"

text \<open>The calls that a tunnel task of an egress and the reader of a UDP ingress make on the connection.\<close>

fun udp_task_calls :: "quic_call task_act list \<Rightarrow> quic_call list" where
  "udp_task_calls [] = []"
| "udp_task_calls (SessionAct call # acts) = call # udp_task_calls acts"
| "udp_task_calls (_ # acts) = udp_task_calls acts"

fun tcp_task_calls :: "tcp_egress_act task_act list \<Rightarrow> quic_call list" where
  "tcp_task_calls [] = []"
| "tcp_task_calls (SessionAct (CloseTunnel call) # acts) = call # tcp_task_calls acts"
| "tcp_task_calls (_ # acts) = tcp_task_calls acts"

fun reader_calls :: "udp_call list \<Rightarrow> quic_call list" where
  "reader_calls [] = []"
| "reader_calls (Quic call # calls) = call # reader_calls calls"
| "reader_calls (_ # calls) = reader_calls calls"

text \<open>Calls that close a connection, if at all, with a code of a set.\<close>

fun closes_with :: "varint set \<Rightarrow> quic_call \<Rightarrow> bool" where
  "closes_with codes (CloseConnection c code reason) \<longleftrightarrow> code \<in> codes"
| "closes_with codes _ \<longleftrightarrow> True"

lemma peer_sees_code:
  "list_all (closes_with codes) calls \<Longrightarrow> peer_sees calls = Some e \<Longrightarrow>
    \<exists>code reason. e = ApplicationClosed \<lparr>error_code = code, close_reason = reason\<rparr> \<and> code \<in> codes"
  by (induction calls rule: peer_sees.induct) auto

lemma tunnel_close_code: "list_all (closes_with {CONNECTION_EOF}) (tunnel_close t)"
  by (simp add: tunnel_close_def tunnel_close_with_reason_def)

section \<open>Who closes with which code\<close>

lemma udp_task_calls_append [simp]: "udp_task_calls (xs @ ys) = udp_task_calls xs @ udp_task_calls ys"
  by (induction xs rule: udp_task_calls.induct) simp_all

lemma tcp_task_calls_append [simp]: "tcp_task_calls (xs @ ys) = tcp_task_calls xs @ tcp_task_calls ys"
  by (induction xs rule: tcp_task_calls.induct) simp_all

lemma udp_task_calls_session [simp]: "udp_task_calls (map SessionAct calls) = calls"
  by (induction calls) simp_all

lemma tcp_task_calls_session [simp]: "tcp_task_calls (map (\<lambda>c. SessionAct (CloseTunnel c)) calls) = calls"
  by (induction calls) simp_all

lemma udp_step_closes:
  "udp_tunnel_step B checks ev p = Some (q, acts) \<Longrightarrow> list_all (closes_with {CONNECTION_EOF}) (udp_task_calls acts)"
  by (cases "(B, checks, ev, p)" rule: udp_tunnel_step.cases)
    (auto simp: tunnel_close_code split: result.splits option.splits)

lemma tcp_step_closes:
  "tcp_tunnel_step checks ev p = Some (q, acts) \<Longrightarrow> list_all (closes_with {CONNECTION_EOF}) (tcp_task_calls acts)"
  by (cases "(checks, ev, p)" rule: tcp_tunnel_step.cases)
    (auto simp: tunnel_close_code split: result.splits)

lemma udp_task_closes:
  "run_task (udp_tunnel_step B checks) evs p = Some (q, acts) \<Longrightarrow>
    list_all (closes_with {CONNECTION_EOF}) (udp_task_calls acts)"
proof (induction evs arbitrary: p acts)
  case (Cons ev evs)
  then show ?case by (auto split: option.splits dest!: udp_step_closes Cons.IH)
qed simp

lemma tcp_task_closes:
  "run_task (tcp_tunnel_step checks) evs p = Some (q, acts) \<Longrightarrow>
    list_all (closes_with {CONNECTION_EOF}) (tcp_task_calls acts)"
proof (induction evs arbitrary: p acts)
  case (Cons ev evs)
  then show ?case by (auto split: option.splits dest!: tcp_step_closes Cons.IH)
qed simp

lemma reader_calls_Quic [simp]: "reader_calls (map Quic calls) = calls"
  by (induction calls) simp_all

lemma reader_closes: "list_all (closes_with {CONNECTION_EOF}) (reader_calls (fst (udp_tunnel_to_socket B t es)))"
  by (induction B t es rule: udp_tunnel_to_socket.induct)
    (auto simp: tunnel_close_code case_prod_beta split: result.split option.split)

lemma command_loop_closes:
  "list_all (closes_with {UNKNOWN_ERROR, COMMAND_STREAM_CLOSED})
    (fst (snd (handle_client_protocol_v1_command_stream c es)))"
proof -
  have "list_all (closes_with {UNKNOWN_ERROR, COMMAND_STREAM_CLOSED}) (client_close c ev)" for ev :: "'u command_event"
    by (cases "(c, ev)" rule: client_close.cases) simp_all
  then show ?thesis using client_commands [of c es] by (auto simp: list_all_iff)
qed

section \<open>What the other side makes of it\<close>

lemma clean_close:
  assumes "list_all (closes_with {CONNECTION_EOF}) calls" and "peer_sees calls = Some e"
  shows "from_connection_error e = ClosedTunnel"
  using peer_sees_code [OF assms] by (auto simp: from_connection_error_ClosedTunnel)

lemma unclean_close:
  assumes "list_all (closes_with {UNKNOWN_ERROR, COMMAND_STREAM_CLOSED}) calls" and "peer_sees calls = Some e"
  shows "from_connection_error e \<noteq> ClosedTunnel"
  using peer_sees_code [OF assms] by (auto simp: from_connection_error_ClosedTunnel code_defs)

lemma reader_sees_eq [simp]: "reader_sees e = from_connection_error e"
  by (simp add: reader_sees_def)

lemma server_commands_healthy:
  "list_all healthy es \<Longrightarrow> handle_server_protocol_v1_command_stream (es @ rest) =
    (let (fs, r) = handle_server_protocol_v1_command_stream rest in (concat (map command_reply es) @ fs, r))"
proof (induction es)
  case (Cons ev es)
  then show ?case
    by (cases ev rule: healthy.cases)
      (auto simp: is_ok_iff case_prod_beta Let_def command_reply_frame simp del: command_reply.simps(2,3) split: frame_v1.split)
qed simp

lemma client_commands_healthy:
  "list_all healthy es \<Longrightarrow> handle_client_protocol_v1_command_stream c (es @ rest) =
    (let (fs, calls, r) = handle_client_protocol_v1_command_stream c rest
     in (concat (map command_reply es) @ fs, calls, r))"
proof (induction es)
  case (Cons ev es)
  then show ?case
    by (simp add: client_commands_step healthy_goes_on client_reply_eq case_prod_beta Let_def)
qed simp

section \<open>Property\<close>

text \<open>
  C36. How the end of a tunnel is taken at the other side. When an egress is stopped, or a UDP
  ingress, the connection is closed with the code for it: the peer's frame reader and its
  datagram reader report a closed tunnel, the reader of a UDP ingress returns after it has
  delivered everything that arrived before, and the command loop of either side ends without
  an error and closes nothing itself. When a client's command loop gives up and closes the
  connection, whatever the reason, the server takes it for an error: its command loop fails,
  and the reader of a UDP ingress never returns, however often it is told.
\<close>

theorem tunnel_end_seen:
  assumes B: "bytes_contract B" and ds: "\<forall>(addr, payload) \<in> set ds. socket_addr_ok addr" and es: "list_all healthy es"
  defines "arrived \<equiv> map (\<lambda>(addr, payload). DatagramRead (Ok (datagram_header addr @ payload))) ds"
    and "delivered \<equiv> map (\<lambda>(addr, payload). UdpSendTo payload (origin_of addr)) ds"
  shows
    "(run_task (udp_tunnel_step B checks) evs p = Some (q, acts) \<and> peer_sees (udp_task_calls acts) = Some e \<longrightarrow>
       udp_tunnel_to_socket B t (arrived @ [DatagramRead (Err e)]) = (delivered, Returned ()) \<and>
       handle_server_protocol_v1_command_stream (es @ [FrameRead (Some (Err (reader_sees e))) sent]) =
         (concat (map command_reply es), Returned (Ok ()))) \<and>
     (run_task (tcp_tunnel_step checks) evs' p' = Some (q', acts') \<and> peer_sees (tcp_task_calls acts') = Some e \<longrightarrow>
       handle_server_protocol_v1_command_stream (es @ [FrameRead (Some (Err (reader_sees e))) sent]) =
         (concat (map command_reply es), Returned (Ok ()))) \<and>
     (peer_sees (reader_calls (fst (udp_tunnel_to_socket B t (arrived @ [TunnelCancelled])))) = Some e \<longrightarrow>
       handle_client_protocol_v1_command_stream c (es @ [FrameRead (Some (Err (reader_sees e))) sent]) =
         (concat (map command_reply es), [], Returned ())) \<and>
     (peer_sees (fst (snd (handle_client_protocol_v1_command_stream c es'))) = Some e \<longrightarrow>
       udp_tunnel_to_socket B t (arrived @ replicate n (DatagramRead (Err e))) = (delivered, Running) \<and>
       handle_server_protocol_v1_command_stream (es @ [FrameRead (Some (Err (reader_sees e))) sent]) =
         (concat (map command_reply es), Returned (Err (reader_sees e))))"
proof (intro conjI impI; (elim conjE)?)
  assume "run_task (udp_tunnel_step B checks) evs p = Some (q, acts)" "peer_sees (udp_task_calls acts) = Some e"
  then have closed: "from_connection_error e = ClosedTunnel" by (rule clean_close [OF udp_task_closes])
  show "udp_tunnel_to_socket B t (arrived @ [DatagramRead (Err e)]) = (delivered, Returned ())"
    using closed by (simp add: arrived_def delivered_def udp_returns_every_datagram [OF B ds] tunnel_read_datagram_def)
  show "handle_server_protocol_v1_command_stream (es @ [FrameRead (Some (Err (reader_sees e))) sent]) =
      (concat (map command_reply es), Returned (Ok ()))"
    using closed by (simp add: server_commands_healthy [OF es])
next
  assume "run_task (tcp_tunnel_step checks) evs' p' = Some (q', acts')" "peer_sees (tcp_task_calls acts') = Some e"
  then have "from_connection_error e = ClosedTunnel" by (rule clean_close [OF tcp_task_closes])
  then show "handle_server_protocol_v1_command_stream (es @ [FrameRead (Some (Err (reader_sees e))) sent]) =
      (concat (map command_reply es), Returned (Ok ()))"
    by (simp add: server_commands_healthy [OF es])
next
  assume "peer_sees (reader_calls (fst (udp_tunnel_to_socket B t (arrived @ [TunnelCancelled])))) = Some e"
  then have "from_connection_error e = ClosedTunnel" by (rule clean_close [OF reader_closes])
  then show "handle_client_protocol_v1_command_stream c (es @ [FrameRead (Some (Err (reader_sees e))) sent]) =
      (concat (map command_reply es), [], Returned ())"
    by (simp add: client_commands_healthy [OF es])
next
  assume "peer_sees (fst (snd (handle_client_protocol_v1_command_stream c es'))) = Some e"
  then have not_closed: "from_connection_error e \<noteq> ClosedTunnel" by (rule unclean_close [OF command_loop_closes])
  have "udp_tunnel_to_socket B t (replicate n (DatagramRead (Err e))) = ([], Running)"
    using not_closed by (induction n) (simp_all add: tunnel_read_datagram_def)
  then show "udp_tunnel_to_socket B t (arrived @ replicate n (DatagramRead (Err e))) = (delivered, Running)"
    by (simp add: arrived_def delivered_def udp_returns_every_datagram [OF B ds])
  show "handle_server_protocol_v1_command_stream (es @ [FrameRead (Some (Err (reader_sees e))) sent]) =
      (concat (map command_reply es), Returned (Err (reader_sees e)))"
    using not_closed by (simp add: server_commands_healthy [OF es])
qed

text \<open>A UDP egress that is stopped while it has a tunnel, and a client whose command stream ends.\<close>

theorem tunnel_end_seen_witness:
  "\<exists>q acts e e'. run_task (udp_tunnel_step list_bytes False) [ConnectReturned (Ok egress_tunnel), CancelSeen] (Connecting 0) =
      Some (q, acts) \<and> peer_sees (udp_task_calls acts) = Some e \<and>
    udp_tunnel_to_socket list_bytes egress_tunnel [DatagramRead (Err e)] = ([], Returned ()) \<and>
    peer_sees (fst (snd (handle_client_protocol_v1_command_stream 11 [FrameRead None (Ok ()) :: nat command_event]))) = Some e' \<and>
    udp_tunnel_to_socket list_bytes egress_tunnel [DatagramRead (Err e'), DatagramRead (Err e')] = ([], Running)"
proof -
  obtain q acts e where r: "run_task (udp_tunnel_step list_bytes False) [ConnectReturned (Ok egress_tunnel), CancelSeen] (Connecting 0) =
      Some (q, acts)" "peer_sees (udp_task_calls acts) = Some e"
    by (simp add: tunnel_close_def tunnel_close_with_reason_def)
  obtain e' where c: "peer_sees (fst (snd (handle_client_protocol_v1_command_stream 11 [FrameRead None (Ok ()) :: nat command_event]))) = Some e'"
    by simp
  have h: "\<forall>(addr, payload) \<in> set []. socket_addr_ok addr" "list_all healthy ([] :: nat command_event list)" by simp_all
  note seen = tunnel_end_seen [OF list_bytes_contract h]
  have "udp_tunnel_to_socket list_bytes egress_tunnel [DatagramRead (Err e)] = ([], Returned ())"
    using seen [THEN conjunct1, THEN mp, THEN conjunct1, OF conjI [OF r]] by (simp only: list.map append_Nil)
  moreover have "udp_tunnel_to_socket list_bytes egress_tunnel (replicate 2 (DatagramRead (Err e'))) = ([], Running)"
    using seen [THEN conjunct2, THEN conjunct2, THEN conjunct2, THEN mp, THEN conjunct1, OF c]
    by (simp only: list.map append_Nil)
  ultimately show ?thesis using r c by (auto simp: numeral_2_eq_2 simp del: handle_client_protocol_v1_command_stream.simps)
qed

end
