(* ===== verification/Spec2Isabelle.thy ===== *)
theory Spec2Isabelle
  imports Main_Program Tcp_Path Tunnel_Shutdown
begin

text \<open>
  A verification development for siffleux, a self-hosted tunnel written in Rust: a server with
  a public address accepts TCP connections and UDP datagrams and carries them over QUIC to
  clients behind a firewall, which hand them to a target.

  \<^bold>\<open>The program.\<close> The library (\<^verbatim>\<open>siffleux/src\<close>) has a server and a client side. A \<^verbatim>\<open>Server\<close> listens
  for QUIC connections and holds ingresses; a \<^verbatim>\<open>Client\<close> holds egresses. An egress connects to the
  server, names an ingress and presents its key; if the server accepts, both sides hold a
  \<^verbatim>\<open>Tunnel\<close>, and the server assigns its own to the ingress. A TCP ingress opens a stream on one of
  its tunnels for each connection it accepts, and the egress at the other end connects the stream
  to its target; a UDP ingress sends each datagram on one of its tunnels with the sender's address
  in front, and the egress keeps one socket per sender. The first stream of a connection carries
  the handshake and then pings. The command line program (\<^verbatim>\<open>siffleux-cli/src\<close>) reads a
  configuration and launches a server or a client.

  \<^bold>\<open>How it is modelled.\<close> Structs are records, enums are datatypes, functions are functions with
  the state they change as an argument and a result; integers that may wrap are words of their
  width. A result is \<open>Ok\<close>, \<open>Err\<close> or \<open>Panic\<close>, so that every \<^verbatim>\<open>unwrap\<close>, index and slice that may panic is
  a branch. Objects behind a shared reference (counters, ingresses, egresses) live in an explicit
  store or heap. A task with a \<^verbatim>\<open>select!\<close> loop is a function of the list of events it sees, or a
  step function that a run iterates; where several tasks interleave, the steps of all of them
  form one system (\<open>assign_step\<close>, \<open>egress_step\<close>, \<open>udp_session_step\<close>, \<open>pump_step\<close>, \<open>path_step\<close>,
  \<open>server_event_step\<close>) and the theorems hold for every order. What system calls and libraries return (sockets, QUIC, TLS, timers, random
  bytes) are arguments. Third-party code that computes (the \<^verbatim>\<open>bytes\<close> and \<^verbatim>\<open>uuid\<close> crates, base64,
  SHA-256, the PEM parser and certificate generator, the TLS handshake) is a parameter; what is
  relied on are the hypotheses \<open>bytes_contract\<close>, \<open>uuid_contract\<close>, \<open>base64_contract\<close>, \<open>rng_lengths\<close>, \<open>rng_contract\<close>,
  \<open>pki_contract\<close> and \<open>handshake_contract\<close>, each shown satisfiable by a witness.
  Of tokio, which the program uses as part of its language, the observable steps are modelled:
  tasks, channels, \<^verbatim>\<open>select!\<close>, and \<^verbatim>\<open>copy_buf\<close> as the reads and writes it is documented to make (\<open>copy_io\<close>).

  \<^bold>\<open>The theories.\<close>
  \<^item> \<^verbatim>\<open>Rust_Prelude\<close>: machine integers, results, slices, big-endian numbers, \<^verbatim>\<open>swap_remove\<close>, UTF-8.
  \<^item> \<^verbatim>\<open>Siffleux_Error\<close> (\<^verbatim>\<open>common/error.rs\<close>, \<^verbatim>\<open>common/code.rs\<close>): the errors and their conversions, which
    classify a lost connection alike in every layer.
  \<^item> \<^verbatim>\<open>Identifiers\<close> (\<^verbatim>\<open>auth_key.rs\<close>, \<^verbatim>\<open>ingress_id.rs\<close>, \<^verbatim>\<open>egress_id.rs\<close>, \<^verbatim>\<open>server_id.rs\<close>): the locale
    \<open>bounded_id\<close>, extended by parsing and display, interpreted for the four types.
  \<^item> \<^verbatim>\<open>Frames_V1\<close> (\<^verbatim>\<open>common/frames/v1.rs\<close>): the codec and the datagram header; round trips, the exact
    inputs on which they panic, and the locale \<open>stream_codec\<close>.
  \<^item> \<^verbatim>\<open>Frame_Stream\<close>: the reader that calls the codec whenever bytes arrive. Its loop terminates on all
    input, and the locale \<open>chunked_codec\<close> shows that chunks read alike the whole stream, up to the cuts
    at which the decoder panics.
  \<^item> \<^verbatim>\<open>Byte_Counter\<close>, \<^verbatim>\<open>Tunnel\<close> (\<^verbatim>\<open>common/byte_counter.rs\<close>, \<^verbatim>\<open>common/tunnel.rs\<close>): counters that forward to
    their parent, and what streams and tunnels count. The recursion to the parent ends because
    parents are older (\<open>store_ok\<close>).
  \<^item> \<^verbatim>\<open>Tunnel_Pool\<close>, \<^verbatim>\<open>Lifecycle\<close>, \<^verbatim>\<open>Registry\<close>: the interfaces shared by several components, as locales
    \<open>round_robin\<close>, \<open>tunnel_pool\<close>, \<open>lifecycle\<close> (a refinement to a flag) and \<open>registry\<close> (a refinement to
    a map in which the first entry of a key stays).
  \<^item> \<^verbatim>\<open>Tcp_Ingress\<close>, \<^verbatim>\<open>Udp_Ingress\<close>, \<^verbatim>\<open>Ingress_Object\<close> (\<^verbatim>\<open>server/ingress\<close>): the two ingresses, interpreting
    the locales, and the trait object; load balancing, assignment races, forwarding, stopping.
  \<^item> \<^verbatim>\<open>Egress_Process\<close>, \<^verbatim>\<open>Tcp_Egress\<close>, \<^verbatim>\<open>Udp_Egress\<close> (\<^verbatim>\<open>client/egress\<close>): the reconnection delay at its
    width, the locales \<open>reconnecting\<close> and \<open>egress_contract\<close>, the two egresses interpreting them, with
    start and stop calls that overlap and tasks that return or panic at any time, and the invariant
    of the UDP egress's table of forwarders. Whether a socket accepts a message of a forwarder is an
    argument, since the forwarder ignores it.
  \<^item> \<^verbatim>\<open>Protocol_V1\<close>, \<^verbatim>\<open>Server\<close>, \<^verbatim>\<open>Client\<close> (\<^verbatim>\<open>server/server.rs\<close>, \<^verbatim>\<open>client/client.rs\<close>, both \<^verbatim>\<open>protocols/v1.rs\<close>):
    registries, listening and stopping, who is let in and with which code everyone else is closed,
    command streams. \<open>server_handle_connection\<close> handles a connection without interruption.
  \<^item> \<^verbatim>\<open>Server_System\<close>: a server with everything that happens to it, calls, connections and the tasks of
    its ingresses, as one system of steps, and the invariant \<open>server_ok\<close> of its reachable states. Here a
    connection is authenticated in one step and its tunnel assigned in a later one, with anything in
    between.
  \<^item> \<^verbatim>\<open>Command_Exchange\<close>: the command loops of both sides against each other, through the codec; the
    locale \<open>command_loop\<close> is interpreted for the two.
  \<^item> \<^verbatim>\<open>Tunnel_Shutdown\<close>: with which code each task closes a connection, and what the tasks at the other
    end make of it.
  \<^item> \<^verbatim>\<open>Authentication\<close> (\<^verbatim>\<open>client/authentication\<close>): the certificate verifier, connecting, and what a
    client reveals to a server that is not the configured one.
  \<^item> \<^verbatim>\<open>Stream_Pump\<close>, \<^verbatim>\<open>Tcp_Path\<close> (\<^verbatim>\<open>common/protocols/v1.rs\<close>): the byte pump between a TCP connection and
    a stream, and two of them joined by a stream, from the user to the target and back: nothing is
    lost, repeated or reordered, and a connection whose ends are finished can always complete.
  \<^item> \<^verbatim>\<open>Config\<close>, \<^verbatim>\<open>Certificates\<close>, \<^verbatim>\<open>Launch\<close>, \<^verbatim>\<open>Launch_Client\<close>, \<^verbatim>\<open>Main_Program\<close> (\<^verbatim>\<open>siffleux-cli/src\<close>):
    configuration, certificates on disk, the launch of a server until its shutdown and of a client,
    and \<^verbatim>\<open>main\<close>, for which a file and the command line that says the same are equivalent, and which
    launches exactly what a server file says or panics.
  \<^item> this theory: the handshake and a UDP exchange from end to end.

  \<^bold>\<open>Bounds.\<close> No definition uses fuel: loops are recursions over the events they are given, so a
  theorem about all event lists is one about all runs. The one loop that no event drives, the
  reader's \<open>drain\<close>, is a partial function that is proved to return on every input. The bounds in statements are those of the
  code: 1 to 255 bytes for identifiers, 128 messages in a forwarder's channel, 62 failed attempts
  (58 with overflow checks) before the reconnection delay is wrong, \<open>2 ^ 64\<close> for counters.

  \<^bold>\<open>Not modelled.\<close> Log output (except where the program computes in it), the libraries themselves,
  the parsing of the command line and of TOML text (the defaults of both are modelled), the
  computation of signatures (the verifier's checks are modelled as the calls to the crypto
  provider that they are), and time beyond the order of timer events. \<^verbatim>\<open>lib.rs\<close> and the other files
  that only declare modules have nothing to model, and the integration tests are not the program.
\<close>

section \<open>Delivery\<close>

text \<open>
  What one side's framed reader yields when the other side has sent frames on the first
  stream and made calls on the connection: the first frame as the codec reads it, or else
  the error of the closed connection.
\<close>

definition sees ::
    "bytes_crate \<Rightarrow> 'u uuid_crate \<Rightarrow> 'u frame_v1 list \<Rightarrow> quic_call list \<Rightarrow> 'u auth_event" where
  "sees B U frames calls = (case frames of
     f # _ \<Rightarrow>
       (case and_then (encode B U f []) (decode B U) of
          Ok (Some g, rest) \<Rightarrow> NextFrame (Some (Ok g))
        | Ok (None, rest) \<Rightarrow> NextFrame None
        | Err e \<Rightarrow> NextFrame (Some (Err e))
        | Panic \<Rightarrow> NextFrame (Some Panic))
   | [] \<Rightarrow>
       (case calls of
          CloseConnection c code reason # _ \<Rightarrow>
            NextFrame (Some (Err (from_io_error (IoRead (ReadConnectionLost
              (ApplicationClosed \<lparr>error_code = code, close_reason = reason\<rparr>))))))
        | _ \<Rightarrow> NextFrame None))"

lemma sees_frame:
  assumes "bytes_contract B" "uuid_contract U" "frame_ok f"
  shows "sees B U (f # fs) calls = NextFrame (Some (Ok f))"
  using decode_frame [OF assms, of "[]"] by (simp add: sees_def encode_frame_bytes [OF assms(1)])

lemma sees_close:
  "sees B U [] (CloseConnection c code reason # calls) =
    NextFrame (Some (Err (from_connection_error (ApplicationClosed \<lparr>error_code = code, close_reason = reason\<rparr>))))"
  by (simp add: sees_def)

section \<open>Properties across components\<close>

text \<open>
  C1. The handshake from end to end, through the codec in both directions and the error
  conversions. A client whose key is the one of the ingress it names gets a tunnel, with the
  id and the server's name that the server's own tunnel has; one with another key is told
  that its key was rejected, and one that names no registered ingress that the ingress was
  rejected, and the server has no tunnel for either.
\<close>

theorem handshake_end_to_end:
  fixes U :: "'u uuid_crate" and s :: "'u server"
  assumes "bytes_contract B" and "uuid_contract U"
    and "frame_ok (Auth k i :: 'u frame_v1)" and "id_text_ok (server_id_to_str (srv_id s))"
    and "handle_server_protocol_v1_auth s c (sees B U [Auth k i] []) u (Ok ()) st = (r, frames, calls, st1)"
    and "handle_client_protocol_v1_auth c' k i counter (Ok ()) (Ok ()) (sees B U frames calls) st2 = (r', rest)"
  shows "case srv_ingress_by_id s i of
      None \<Rightarrow> r = Err RejectedIngressId \<and> r' = Err RejectedIngressId
    | Some ref \<Rightarrow>
        if ingress_obj_auth_key (srv_heap s ref) = k
        then \<exists>t t'. r = Ok (ref, t) \<and> r' = Ok t' \<and> tunnel_id t = u \<and> tunnel_id t' = u \<and>
          tunnel_server_id t' = tunnel_server_id t
        else r = Err RejectedAuthKey \<and> r' = Err RejectedAuthKey"
proof -
  have arrives: "sees B U [Auth k i] [] = NextFrame (Some (Ok (Auth k i)))"
    by (rule sees_frame [OF assms(1-3)])
  have reply: "sees B U [Authenticated u (srv_id s)] [] = NextFrame (Some (Ok (Authenticated u (srv_id s))))"
    by (rule sees_frame [OF assms(1,2)]) (simp add: assms(4))
  show ?thesis
    using assms(5,6) reply
    unfolding arrives
    by (auto simp: handle_server_protocol_v1_auth_def handle_client_protocol_v1_auth_def server_get_ingress_by_id_def
        tunnel_new_def sees_close from_connection_error_def code_defs Let_def split: option.splits if_splits prod.splits)
qed

definition handshake_server :: "uuid16 server" where
  "handshake_server = \<lparr>srv_id = ServerId [115], srv_endpoint = Some 9,
     srv_quic_config = srv_quic_config sample_server, srv_ingress_by_id = [IngressId [105] \<mapsto> 0],
     srv_byte_counter = 0, srv_certificate_hash = [],
     srv_heap = (\<lambda>_. Tcp (tcp_ingress_new (IngressId [105]) (AuthKey [107]) (SocketAddrV4 [0, 0, 0, 0] 3000)))\<rparr>"

theorem handshake_end_to_end_witness:
  "\<exists>r frames calls st1 r' rest.
     handle_server_protocol_v1_auth handshake_server 4
       (sees list_bytes uuid16_crate [Auth (AuthKey [108]) (IngressId [105])] [])
       (Abs_uuid16 (replicate 16 0)) (Ok ()) empty_store = (r, frames, calls, st1) \<and>
     handle_client_protocol_v1_auth 5 (AuthKey [108]) (IngressId [105]) 0 (Ok ()) (Ok ())
       (sees list_bytes uuid16_crate frames calls) empty_store = (r', rest) \<and>
     r' = Err RejectedAuthKey"
proof -
  obtain r frames calls st1 where s: "handle_server_protocol_v1_auth handshake_server 4
      (sees list_bytes uuid16_crate [Auth (AuthKey [108]) (IngressId [105])] [])
      (Abs_uuid16 (replicate 16 0)) (Ok ()) empty_store = (r, frames, calls, st1)"
    by (metis prod_cases4)
  obtain r' rest where c: "handle_client_protocol_v1_auth 5 (AuthKey [108]) (IngressId [105]) 0 (Ok ()) (Ok ())
      (sees list_bytes uuid16_crate frames calls) empty_store = (r', rest)"
    by (meson surj_pair)
  have ok: "frame_ok (Auth (AuthKey [108]) (IngressId [105]) :: uuid16 frame_v1)"
    "id_text_ok (server_id_to_str (srv_id handshake_server))"
    by (simp_all add: id_text_ok_def handshake_server_def)
  have "r' = Err RejectedAuthKey"
    using handshake_end_to_end [OF list_bytes_contract uuid16_contract ok s c]
    by (simp add: handshake_server_def tcp_ingress_new_def)
  with s c show ?thesis by blast
qed

text \<open>
  C8. A UDP exchange from end to end. A datagram that a user sends to a UDP ingress leaves on
  the tunnel whose turn it is; the egress that receives it hands exactly the user's bytes to
  the forwarder of that user; and what the target answers on the forwarder's socket is sent
  by the ingress to the user's address, byte for byte.
\<close>

theorem udp_end_to_end:
  fixes ingress :: "'u udp_ingress"
  assumes B: "bytes_contract B" and "socket_addr_ok user"
    and "udp_tunnels ingress \<noteq> []" and "len \<le> length buffer" and "len' \<le> length buffer'"
    and "us_sockets session (origin_of user) = None"
  shows "\<exists>(t :: 'u tunnel) ingress' datagram session' f answer.
    udp_socket_to_tunnel B [Received buffer len user] ingress =
      ([Quic (SendDatagram (tunnel_connection t) datagram)], ingress', Running) \<and> t \<in> set (udp_tunnels ingress) \<and>
    process_datagram B datagram session = Ok session' \<and>
    Option.bind (us_sockets session' (origin_of user)) (us_forwarders session') = Some f \<and>
    fw_origin f = origin_of user \<and> fw_queue f = [take len buffer] \<and>
    pipe_socket_to_tunnel_datagram B (us_tunnel session) (fw_origin f) [SocketReceived buffer' len'] =
      ([SendDatagram (tunnel_connection (us_tunnel session)) answer], Running) \<and>
    udp_tunnel_to_socket B t [DatagramRead (Ok answer)] =
      ([UdpSendTo (take len' buffer') (origin_of user)], Running)"
proof -
  obtain ch ingress' where p: "udp_get_tunnel_to_connect ingress = (ch, ingress')" by (meson surj_pair)
  with assms(3) obtain t where ch: "ch = Some t" using udp_pool.pick_None [of ingress] by fastforce
  then have t: "t \<in> set (udp_tunnels ingress)" using udp_pool.pick_member [of ingress t] p by simp
  have ok: "socket_addr_ok (origin_of user)" "origin_of (origin_of user) = origin_of user"
    using assms(2) by (cases user; simp)+
  show ?thesis
    by (rule exI [of _ t])
      (use p ch t assms(4-6) process_new_origin [OF B assms(2,6), of "take len buffer"] ok extract_header [OF B ok(1)]
       in \<open>simp add: to_datagram_eq [OF B] tunnel_send_datagram_def tunnel_read_datagram_def try_send_def
         MAX_MESSAGES_RECEIVED_def\<close>)
qed

theorem udp_end_to_end_witness:
  "\<exists>(t :: nat tunnel) ingress' datagram session' (f :: forwarder) answer.
    udp_socket_to_tunnel list_bytes [Received [1, 2] 2 (SocketAddrV4 [10, 0, 0, 1] 258)] sample_udp =
      ([Quic (SendDatagram (tunnel_connection t) datagram)], ingress', Running) \<and>
    process_datagram list_bytes datagram egress_session = Ok session' \<and>
    pipe_socket_to_tunnel_datagram list_bytes (us_tunnel egress_session) (fw_origin f) [SocketReceived [3] 1] =
      ([SendDatagram (tunnel_connection (us_tunnel egress_session)) answer], Running) \<and>
    udp_tunnel_to_socket list_bytes t [DatagramRead (Ok answer)] =
      ([UdpSendTo [3] (SocketAddrV4 [10, 0, 0, 1] 258)], Running)"
proof -
  let ?a = "SocketAddrV4 [10, 0, 0, 1] 258"
  have h: "socket_addr_ok ?a" "udp_tunnels sample_udp \<noteq> []" "2 \<le> length [1, 2 :: u8]" "1 \<le> length [3 :: u8]"
    "us_sockets egress_session (origin_of ?a) = None"
    by (simp_all add: sample_udp_def egress_session_def new_udp_session_def)
  have eq: "origin_of ?a = ?a" "take 1 [3 :: u8] = [3]" by simp_all
  show ?thesis
    using udp_end_to_end [OF list_bytes_contract h] unfolding eq by blast
qed

end
